theory Spec2Isabelle
  imports Main "HOL-Library.Word"
begin

unbundle bit_operations_syntax

section \<open>JavaScript numbers and Node buffers\<close>

text \<open>
  The library works on JavaScript numbers that hold integers, and on Node \<open>Buffer\<close>s.
  An integer-valued number is an \<open>int\<close>; a buffer is a list of bytes. The bitwise
  operators of JavaScript first convert their operands to 32 bits (\<open>ToInt32\<close>,
  \<open>ToUint32\<close>), which is written out with \<open>32 word\<close>.

  The buffer methods of Node (\<open>writeInt32LE\<close>, \<open>readUInt32LE\<close>, \<open>copy\<close>,
  \<open>slice\<close>, \<open>fill\<close>, \<open>write\<close>) are not part of the library. They are modelled
  as the library calls them, with \<open>noAssert = true\<close>: no range check, an element store
  outside the buffer is dropped, an element read outside the buffer is \<open>undefined\<close>.
\<close>

type_synonym buffer = "8 word list"

datatype error =
  EncodingError int string   \<comment> \<open>offset and reason, thrown by \<open>check\<close> and \<open>enforce\<close>\<close>
  | AssertionError           \<comment> \<open>a failed \<open>assert\<close>\<close>
  | RangeError               \<comment> \<open>thrown by Node's \<open>copy\<close> and \<open>fill\<close> on a bad index\<close>
  | UndefinedValue           \<comment> \<open>no exception: the result is \<open>undefined\<close> or \<open>NaN\<close>\<close>

definition toInt32 :: "int \<Rightarrow> int" where
  "toInt32 x = sint (word_of_int x :: 32 word)"

definition toUint32 :: "int \<Rightarrow> int" where
  "toUint32 x = uint (word_of_int x :: 32 word)"

definition js_and :: "int \<Rightarrow> int \<Rightarrow> int" where
  "js_and a b = sint ((word_of_int a :: 32 word) AND word_of_int b)"

definition js_or :: "int \<Rightarrow> int \<Rightarrow> int" where
  "js_or a b = sint ((word_of_int a :: 32 word) OR word_of_int b)"

definition js_not :: "int \<Rightarrow> int" where
  "js_not a = sint (NOT (word_of_int a :: 32 word))"

definition js_shl :: "int \<Rightarrow> nat \<Rightarrow> int" where
  "js_shl a n = sint (push_bit n (word_of_int a :: 32 word))"

definition js_sar :: "int \<Rightarrow> nat \<Rightarrow> int" where
  "js_sar a n = sint (signed_drop_bit n (word_of_int a :: 32 word))"

definition js_shr :: "int \<Rightarrow> nat \<Rightarrow> int" where
  "js_shr a n = uint (drop_bit n (word_of_int a :: 32 word))"

text \<open>\<open>data[i]\<close>: the byte as a number, \<open>None\<close> for \<open>undefined\<close>.\<close>

definition get :: "buffer \<Rightarrow> int \<Rightarrow> int option" where
  "get data i = (if 0 \<le> i \<and> i < int (length data) then Some (uint (data ! nat i)) else None)"

text \<open>\<open>dst[i] = v\<close>: the value is stored modulo 256; outside the buffer nothing happens.\<close>

definition put :: "buffer \<Rightarrow> int \<Rightarrow> int \<Rightarrow> buffer" where
  "put dst i v = (if 0 \<le> i \<and> i < int (length dst) then dst[nat i := word_of_int v] else dst)"

definition writeUInt8 :: "buffer \<Rightarrow> int \<Rightarrow> int \<Rightarrow> buffer \<times> int" where
  "writeUInt8 dst v off = (put dst off v, off + 1)"

definition writeUInt16LE :: "buffer \<Rightarrow> int \<Rightarrow> int \<Rightarrow> buffer \<times> int" where
  "writeUInt16LE dst v off = (put (put dst off v) (off + 1) (js_shr v 8), off + 2)"

definition writeUInt16BE :: "buffer \<Rightarrow> int \<Rightarrow> int \<Rightarrow> buffer \<times> int" where
  "writeUInt16BE dst v off = (put (put dst off (js_shr v 8)) (off + 1) v, off + 2)"

definition writeUInt32LE :: "buffer \<Rightarrow> int \<Rightarrow> int \<Rightarrow> buffer \<times> int" where
  "writeUInt32LE dst v off =
     (put (put (put (put dst off v) (off + 1) (js_shr v 8)) (off + 2) (js_shr v 16))
        (off + 3) (js_shr v 24), off + 4)"

definition writeUInt32BE :: "buffer \<Rightarrow> int \<Rightarrow> int \<Rightarrow> buffer \<times> int" where
  "writeUInt32BE dst v off =
     (put (put (put (put dst off (js_shr v 24)) (off + 1) (js_shr v 16)) (off + 2) (js_shr v 8))
        (off + 3) v, off + 4)"

text \<open>
  The signed writers store the same bytes as the unsigned ones: the element store keeps
  the low eight bits of the two's complement value.
\<close>

definition writeInt8 :: "buffer \<Rightarrow> int \<Rightarrow> int \<Rightarrow> buffer \<times> int" where
  "writeInt8 dst v off = writeUInt8 dst v off"

definition writeInt16LE :: "buffer \<Rightarrow> int \<Rightarrow> int \<Rightarrow> buffer \<times> int" where
  "writeInt16LE dst v off = writeUInt16LE dst v off"

definition writeInt16BE :: "buffer \<Rightarrow> int \<Rightarrow> int \<Rightarrow> buffer \<times> int" where
  "writeInt16BE dst v off = writeUInt16BE dst v off"

definition writeInt32LE :: "buffer \<Rightarrow> int \<Rightarrow> int \<Rightarrow> buffer \<times> int" where
  "writeInt32LE dst v off = writeUInt32LE dst v off"

definition writeInt32BE :: "buffer \<Rightarrow> int \<Rightarrow> int \<Rightarrow> buffer \<times> int" where
  "writeInt32BE dst v off = writeUInt32BE dst v off"

text \<open>
  \<open>readUInt32LE\<close> is \<open>NaN\<close> when a byte is missing (\<open>undefined * 0x1000000\<close>).
\<close>

definition readUInt32LE :: "buffer \<Rightarrow> int \<Rightarrow> int option" where
  "readUInt32LE data off =
     (case (get data off, get data (off + 1), get data (off + 2), get data (off + 3)) of
        (Some b0, Some b1, Some b2, Some b3) \<Rightarrow>
          Some (b0 + b1 * 0x100 + b2 * 0x10000 + b3 * 0x1000000)
      | _ \<Rightarrow> None)"

definition readUInt32BE :: "buffer \<Rightarrow> int \<Rightarrow> int option" where
  "readUInt32BE data off =
     (case (get data off, get data (off + 1), get data (off + 2), get data (off + 3)) of
        (Some b0, Some b1, Some b2, Some b3) \<Rightarrow>
          Some (b0 * 0x1000000 + b1 * 0x10000 + b2 * 0x100 + b3)
      | _ \<Rightarrow> None)"

section \<open>encoding.ts: 64-bit integers as numbers\<close>

definition readU64 :: "buffer \<Rightarrow> int \<Rightarrow> error + int" where
  "readU64 data off =
     (case (readUInt32LE data (off + 4), readUInt32LE data off) of
        (Some hi, Some lo) \<Rightarrow>
          if js_and hi 0xffe00000 = 0 then Inr (hi * 0x100000000 + lo)
          else Inl (EncodingError off ''Number exceeds 2^53-1'')
      | _ \<Rightarrow> Inl UndefinedValue)"

definition readU64BE :: "buffer \<Rightarrow> int \<Rightarrow> error + int" where
  "readU64BE data off =
     (case (readUInt32BE data off, readUInt32BE data (off + 4)) of
        (Some hi, Some lo) \<Rightarrow>
          if js_and hi 0xffe00000 = 0 then Inr (hi * 0x100000000 + lo)
          else Inl (EncodingError off ''Number exceeds 2^53-1'')
      | _ \<Rightarrow> Inl UndefinedValue)"

text \<open>
  \<open>write64\<close>: \<open>(num * (1 / 0x100000000)) | 0\<close> truncates the quotient of the
  non-negative \<open>num\<close> and converts it to 32 bits; \<open>num | 0\<close> is \<open>ToInt32\<close>.
\<close>

definition write64 :: "buffer \<Rightarrow> int \<Rightarrow> int \<Rightarrow> bool \<Rightarrow> buffer \<times> int" where
  "write64 dst num0 off be =
     (let neg = num0 < 0;
          num = (if num0 < 0 then - num0 else num0);
          hi0 = toInt32 (num div 0x100000000);
          lo0 = toInt32 num;
          hi = (if neg then (if lo0 = 0 then toInt32 (js_not hi0 + 1) else js_not hi0) else hi0);
          lo = (if neg then (if lo0 = 0 then lo0 else js_not lo0 + 1) else lo0)
      in if be then
           (let (d1, off1) = writeInt32BE dst hi off in writeInt32BE d1 lo off1)
         else
           (let (d1, off1) = writeInt32LE dst lo off in writeInt32LE d1 hi off1))"

definition writeU64 :: "buffer \<Rightarrow> int \<Rightarrow> int \<Rightarrow> buffer \<times> int" where
  "writeU64 dst num off = write64 dst num off False"

definition writeU64BE :: "buffer \<Rightarrow> int \<Rightarrow> int \<Rightarrow> buffer \<times> int" where
  "writeU64BE dst num off = write64 dst num off True"

definition writeI64 :: "buffer \<Rightarrow> int \<Rightarrow> int \<Rightarrow> buffer \<times> int" where
  "writeI64 dst num off = write64 dst num off False"

definition writeI64BE :: "buffer \<Rightarrow> int \<Rightarrow> int \<Rightarrow> buffer \<times> int" where
  "writeI64BE dst num off = write64 dst num off True"

section \<open>The n64 package\<close>

text \<open>
  \<open>U64\<close> and \<open>I64\<close> come from the package n64; the repository only declares their
  types. A number is a pair of 32-bit words and the flag \<open>sign\<close> (0 for \<open>U64\<close>, 1 for
  \<open>I64\<close>). The arithmetic methods are used by the library on unsigned numbers only
  (after \<open>enforce(!num.sign)\<close>, or on \<open>new U64()\<close>), and are modelled on the 64-bit
  pattern with their unsigned meaning.
\<close>

record N64 =
  hi :: "32 word"
  lo :: "32 word"
  sign :: int

definition bits :: "N64 \<Rightarrow> 64 word" where
  "bits n = word_cat (hi n) (lo n)"

definition of_bits :: "int \<Rightarrow> 64 word \<Rightarrow> N64" where
  "of_bits s w = \<lparr>hi = ucast (drop_bit 32 w), lo = ucast w, sign = s\<rparr>"

definition new_U64 :: N64 where
  "new_U64 = \<lparr>hi = 0, lo = 0, sign = 0\<rparr>"

definition UINT64_MAX :: N64 where
  "UINT64_MAX = \<lparr>hi = - 1, lo = - 1, sign = 0\<rparr>"

definition U64_fromInt :: "int \<Rightarrow> N64" where
  "U64_fromInt x = \<lparr>hi = 0, lo = word_of_int x, sign = 0\<rparr>"

definition toInt :: "N64 \<Rightarrow> int" where
  "toInt n = (if sign n \<noteq> 0 then sint (lo n) else uint (lo n))"

definition andln :: "N64 \<Rightarrow> int \<Rightarrow> int" where
  "andln n c = sint (lo n AND word_of_int c)"

definition lten :: "N64 \<Rightarrow> int \<Rightarrow> bool" where
  "lten n c = (uint (bits n) \<le> c)"

definition lte :: "N64 \<Rightarrow> N64 \<Rightarrow> bool" where
  "lte a b = (bits a \<le> bits b)"

definition eq :: "N64 \<Rightarrow> N64 \<Rightarrow> bool" where
  "eq a b = (bits a = bits b)"

definition ishrn :: "N64 \<Rightarrow> nat \<Rightarrow> N64" where
  "ishrn n k = of_bits (sign n) (drop_bit k (bits n))"

definition shrn :: "N64 \<Rightarrow> nat \<Rightarrow> N64" where
  "shrn n k = ishrn n k"

definition ishln :: "N64 \<Rightarrow> nat \<Rightarrow> N64" where
  "ishln n k = of_bits (sign n) (push_bit k (bits n))"

definition iorn :: "N64 \<Rightarrow> int \<Rightarrow> N64" where
  "iorn n c = of_bits (sign n) (bits n OR word_of_int c)"

definition iaddn :: "N64 \<Rightarrow> int \<Rightarrow> N64" where
  "iaddn n c = of_bits (sign n) (bits n + word_of_int c)"

definition isubn :: "N64 \<Rightarrow> int \<Rightarrow> N64" where
  "isubn n c = of_bits (sign n) (bits n - word_of_int c)"

definition writeLE :: "N64 \<Rightarrow> buffer \<Rightarrow> int \<Rightarrow> buffer \<times> int" where
  "writeLE n dst off =
     (let (d1, off1) = writeInt32LE dst (sint (lo n)) off in writeInt32LE d1 (sint (hi n)) off1)"

definition writeBE :: "N64 \<Rightarrow> buffer \<Rightarrow> int \<Rightarrow> buffer \<times> int" where
  "writeBE n dst off =
     (let (d1, off1) = writeInt32BE dst (sint (hi n)) off in writeInt32BE d1 (sint (lo n)) off1)"

definition N64_readLE :: "int \<Rightarrow> buffer \<Rightarrow> int \<Rightarrow> error + N64" where
  "N64_readLE s data off =
     (case (readUInt32LE data off, readUInt32LE data (off + 4)) of
        (Some l, Some h) \<Rightarrow> Inr \<lparr>hi = word_of_int h, lo = word_of_int l, sign = s\<rparr>
      | _ \<Rightarrow> Inl UndefinedValue)"

definition N64_readBE :: "int \<Rightarrow> buffer \<Rightarrow> int \<Rightarrow> error + N64" where
  "N64_readBE s data off =
     (case (readUInt32BE data off, readUInt32BE data (off + 4)) of
        (Some h, Some l) \<Rightarrow> Inr \<lparr>hi = word_of_int h, lo = word_of_int l, sign = s\<rparr>
      | _ \<Rightarrow> Inl UndefinedValue)"

section \<open>encoding.ts: 64-bit integers as \<open>U64\<close> and \<open>I64\<close>\<close>

text \<open>
  A function that writes returns the buffer as it leaves it together with its result, so
  that what an exception leaves behind in \<open>dst\<close> is part of the model.
\<close>

definition readU64N :: "buffer \<Rightarrow> int \<Rightarrow> error + N64" where
  "readU64N data off = N64_readLE 0 data off"

definition readU64BEN :: "buffer \<Rightarrow> int \<Rightarrow> error + N64" where
  "readU64BEN data off = N64_readBE 0 data off"

definition readI64N :: "buffer \<Rightarrow> int \<Rightarrow> error + N64" where
  "readI64N data off = N64_readLE 1 data off"

definition readI64BEN :: "buffer \<Rightarrow> int \<Rightarrow> error + N64" where
  "readI64BEN data off = N64_readBE 1 data off"

definition ok :: "buffer \<times> int \<Rightarrow> buffer \<times> (error + int)" where
  "ok r = (fst r, Inr (snd r))"

definition writeU64N :: "buffer \<Rightarrow> N64 \<Rightarrow> int \<Rightarrow> buffer \<times> (error + int)" where
  "writeU64N dst num off =
     (if sign num \<noteq> 0 then (dst, Inl (EncodingError off ''Signed''))
      else ok (writeLE num dst off))"

definition writeU64BEN :: "buffer \<Rightarrow> N64 \<Rightarrow> int \<Rightarrow> buffer \<times> (error + int)" where
  "writeU64BEN dst num off =
     (if sign num \<noteq> 0 then (dst, Inl (EncodingError off ''Signed''))
      else ok (writeBE num dst off))"

definition writeI64N :: "buffer \<Rightarrow> N64 \<Rightarrow> int \<Rightarrow> buffer \<times> (error + int)" where
  "writeI64N dst num off =
     (if sign num = 0 then (dst, Inl (EncodingError off ''Not signed''))
      else ok (writeLE num dst off))"

definition writeI64BEN :: "buffer \<Rightarrow> N64 \<Rightarrow> int \<Rightarrow> buffer \<times> (error + int)" where
  "writeI64BEN dst num off =
     (if sign num = 0 then (dst, Inl (EncodingError off ''Not signed''))
      else ok (writeBE num dst off))"

section \<open>encoding.ts: varint scheme A\<close>

record Varint =
  size :: int
  "value" :: int

text \<open>
  In \<open>readVarint\<close> an \<open>undefined\<close> first byte (a negative offset) takes the default
  branch of the \<open>switch\<close> and becomes the value. Where a payload byte is
  \<open>undefined\<close>, \<open>|\<close> reads it as 0, and a \<open>NaN\<close> fails the comparison of
  \<open>enforce\<close>.
\<close>

definition to_num :: "int option \<Rightarrow> int" where
  "to_num ch = (case ch of None \<Rightarrow> 0 | Some c \<Rightarrow> c)"

definition readVarint :: "buffer \<Rightarrow> int \<Rightarrow> error + Varint" where
  "readVarint data off =
     (if \<not> off < int (length data) then Inl (EncodingError off ''Out of bounds read'')
      else case get data off of
        None \<Rightarrow> Inl UndefinedValue
      | Some b \<Rightarrow>
          if b = 0xff then
            (if \<not> off + 9 \<le> int (length data) then Inl (EncodingError off ''Out of bounds read'')
             else case readU64 data (off + 1) of
               Inl UndefinedValue \<Rightarrow> Inl (EncodingError off ''Non-canonical varint'')
             | Inl e \<Rightarrow> Inl e
             | Inr v \<Rightarrow>
                 if \<not> v > 0xffffffff then Inl (EncodingError off ''Non-canonical varint'')
                 else Inr \<lparr>size = 9, value = v\<rparr>)
          else if b = 0xfe then
            (if \<not> off + 5 \<le> int (length data) then Inl (EncodingError off ''Out of bounds read'')
             else case readUInt32LE data (off + 1) of
               None \<Rightarrow> Inl (EncodingError off ''Non-canonical varint'')
             | Some v \<Rightarrow>
                 if \<not> v > 0xffff then Inl (EncodingError off ''Non-canonical varint'')
                 else Inr \<lparr>size = 5, value = v\<rparr>)
          else if b = 0xfd then
            (if \<not> off + 3 \<le> int (length data) then Inl (EncodingError off ''Out of bounds read'')
             else
               (let v = js_or (to_num (get data (off + 1))) (js_shl (to_num (get data (off + 2))) 8) in
                if \<not> v \<ge> 0xfd then Inl (EncodingError off ''Non-canonical varint'')
                else Inr \<lparr>size = 3, value = v\<rparr>))
          else Inr \<lparr>size = 1, value = b\<rparr>)"

definition writeVarint :: "buffer \<Rightarrow> int \<Rightarrow> int \<Rightarrow> buffer \<times> int" where
  "writeVarint dst num off =
     (if num < 0xfd then (put dst off (js_and num 0xff), off + 1)
      else if num \<le> 0xffff then
        (let d1 = put dst off 0xfd;
             d2 = put d1 (off + 1) (js_and num 0xff);
             d3 = put d2 (off + 2) (js_and (js_sar num 8) 0xff)
         in (d3, off + 3))
      else if num \<le> 0xffffffff then
        (let d1 = put dst off 0xfe;
             d2 = put d1 (off + 1) (js_and num 0xff);
             d3 = put d2 (off + 2) (js_and (js_sar num 8) 0xff);
             d4 = put d3 (off + 3) (js_and (js_sar num 16) 0xff);
             d5 = put d4 (off + 4) (js_shr num 24)
         in (d5, off + 5))
      else
        (let d1 = put dst off 0xff in writeU64 d1 num (off + 1)))"

definition sizeVarint :: "int \<Rightarrow> int" where
  "sizeVarint num =
     (if num < 0xfd then 1
      else if num \<le> 0xffff then 3
      else if num \<le> 0xffffffff then 5
      else 9)"

definition readVarintN :: "buffer \<Rightarrow> int \<Rightarrow> error + (int \<times> N64)" where
  "readVarintN data off =
     (if \<not> off < int (length data) then Inl (EncodingError off ''Out of bounds read'')
      else if get data off = Some 0xff then
        (if \<not> off + 9 \<le> int (length data) then Inl (EncodingError off ''Out of bounds read'')
         else case readU64N data (off + 1) of
           Inl e \<Rightarrow> Inl e
         | Inr v \<Rightarrow>
             if \<not> hi v \<noteq> 0 then Inl (EncodingError off ''Non-canonical varint'')
             else Inr (9, v))
      else case readVarint data off of
        Inl e \<Rightarrow> Inl e
      | Inr r \<Rightarrow> Inr (size r, U64_fromInt (value r)))"

definition writeVarintN :: "buffer \<Rightarrow> N64 \<Rightarrow> int \<Rightarrow> buffer \<times> (error + int)" where
  "writeVarintN dst num off =
     (if sign num \<noteq> 0 then (dst, Inl (EncodingError off ''Signed''))
      else if hi num \<noteq> 0 then writeU64N (put dst off 0xff) num (off + 1)
      else ok (writeVarint dst (toInt num) off))"

definition sizeVarintN :: "N64 \<Rightarrow> error + int" where
  "sizeVarintN num =
     (if sign num \<noteq> 0 then Inl (EncodingError 0 ''Signed'')
      else if hi num \<noteq> 0 then Inr 9
      else Inr (sizeVarint (toInt num)))"

section \<open>encoding.ts: varint scheme B\<close>

definition MAX_SAFE_INTEGER :: int where
  "MAX_SAFE_INTEGER = 9007199254740991"

definition BASE128_MAX :: N64 where
  "BASE128_MAX = shrn UINT64_MAX 7"

text \<open>\<open>ch & m\<close> for a byte that may be \<open>undefined\<close>, which the operator reads as 0.\<close>

definition and_byte :: "int option \<Rightarrow> int \<Rightarrow> int" where
  "and_byte ch m = (case ch of None \<Rightarrow> 0 | Some c \<Rightarrow> js_and c m)"

text \<open>The loop of \<open>readVarint2\<close>, with \<open>off\<close>, \<open>num\<close> and \<open>size\<close> as arguments.\<close>

function readVarint2_loop :: "buffer \<Rightarrow> int \<Rightarrow> int \<Rightarrow> int \<Rightarrow> error + Varint" where
  "readVarint2_loop data off num sz =
     (if \<not> off < int (length data) then Inl (EncodingError off ''Out of bounds read'')
      else if \<not> num \<le> 0x3fffffffffff - and_byte (get data off) 0x7f
        then Inl (EncodingError (off + 1) ''Number exceeds 2^53-1'')
      else if and_byte (get data off) 0x80 = 0
        then Inr \<lparr>size = sz + 1, value = num * 0x80 + and_byte (get data off) 0x7f\<rparr>
      else if \<not> num * 0x80 + and_byte (get data off) 0x7f \<noteq> MAX_SAFE_INTEGER
        then Inl (EncodingError (off + 1) ''Number exceeds 2^53-1'')
      else readVarint2_loop data (off + 1) (num * 0x80 + and_byte (get data off) 0x7f + 1) (sz + 1))"
  by pat_completeness auto
termination
  by (relation "measure (\<lambda>(data, off, num, sz). nat (int (length data) - off))") auto

declare readVarint2_loop.simps [simp del]

definition readVarint2 :: "buffer \<Rightarrow> int \<Rightarrow> error + Varint" where
  "readVarint2 data off = readVarint2_loop data off 0 0"

text \<open>
  The first loop of \<open>writeVarint2\<close> fills \<open>tmp[0..len]\<close>; the result is \<open>tmp\<close>, whose
  last index is the final \<open>len\<close>. The step \<open>(num - num % 0x80) / 0x80 - 1\<close> is taken for
  \<open>num > 0x7f\<close> only, where \<open>%\<close> is \<open>mod\<close> and the division is exact.
\<close>

function writeVarint2_tmp :: "int \<Rightarrow> int list \<Rightarrow> int list" where
  "writeVarint2_tmp num tmp =
     (if num \<le> 0x7f
      then tmp @ [js_or (js_and num 0x7f) (if length tmp \<noteq> 0 then 0x80 else 0x00)]
      else writeVarint2_tmp ((num - num mod 0x80) div 0x80 - 1)
             (tmp @ [js_or (js_and num 0x7f) (if length tmp \<noteq> 0 then 0x80 else 0x00)]))"
  by pat_completeness auto
termination
  by (relation "measure (\<lambda>(num, tmp). nat num)") auto

declare writeVarint2_tmp.simps [simp del]

text \<open>\<open>do { dst[off++] = tmp[len]; } while (len--);\<close>\<close>

fun emit :: "buffer \<Rightarrow> int \<Rightarrow> int list \<Rightarrow> nat \<Rightarrow> buffer \<times> int" where
  "emit dst off tmp 0 = (put dst off (tmp ! 0), off + 1)"
| "emit dst off tmp (Suc len) = emit (put dst off (tmp ! Suc len)) (off + 1) tmp len"

definition writeVarint2 :: "buffer \<Rightarrow> int \<Rightarrow> int \<Rightarrow> buffer \<times> (error + int)" where
  "writeVarint2 dst num off =
     (let tmp = writeVarint2_tmp num []; len = length tmp - 1 in
      if \<not> off + int len + 1 \<le> int (length dst)
      then (dst, Inl (EncodingError off ''Out of bounds read''))
      else ok (emit dst off tmp len))"

function sizeVarint2_loop :: "int \<Rightarrow> int \<Rightarrow> int" where
  "sizeVarint2_loop num sz =
     (if num \<le> 0x7f then sz + 1
      else sizeVarint2_loop ((num - num mod 0x80) div 0x80 - 1) (sz + 1))"
  by pat_completeness auto
termination
  by (relation "measure (\<lambda>(num, sz). nat num)") auto

declare sizeVarint2_loop.simps [simp del]

definition sizeVarint2 :: "int \<Rightarrow> int" where
  "sizeVarint2 num = sizeVarint2_loop num 0"

function readVarint2N_loop :: "buffer \<Rightarrow> int \<Rightarrow> N64 \<Rightarrow> int \<Rightarrow> error + (int \<times> N64)" where
  "readVarint2N_loop data off num sz =
     (if \<not> off < int (length data) then Inl (EncodingError off ''Out of bounds read'')
      else if \<not> lte num BASE128_MAX
        then Inl (EncodingError (off + 1) ''Number exceeds 2^64-1'')
      else if and_byte (get data off) 0x80 = 0
        then Inr (sz + 1, iorn (ishln num 7) (and_byte (get data off) 0x7f))
      else if \<not> \<not> eq (iorn (ishln num 7) (and_byte (get data off) 0x7f)) UINT64_MAX
        then Inl (EncodingError (off + 1) ''Number exceeds 2^64-1'')
      else readVarint2N_loop data (off + 1)
             (iaddn (iorn (ishln num 7) (and_byte (get data off) 0x7f)) 1) (sz + 1))"
  by pat_completeness auto
termination
  by (relation "measure (\<lambda>(data, off, num, sz). nat (int (length data) - off))") auto

declare readVarint2N_loop.simps [simp del]

definition readVarint2N :: "buffer \<Rightarrow> int \<Rightarrow> error + (int \<times> N64)" where
  "readVarint2N data off = readVarint2N_loop data off new_U64 0"

function writeVarint2N_tmp :: "N64 \<Rightarrow> int list \<Rightarrow> int list" where
  "writeVarint2N_tmp num tmp =
     (if lten num 0x7f
      then tmp @ [js_or (andln num 0x7f) (if length tmp \<noteq> 0 then 0x80 else 0x00)]
      else writeVarint2N_tmp (isubn (ishrn num 7) 1)
             (tmp @ [js_or (andln num 0x7f) (if length tmp \<noteq> 0 then 0x80 else 0x00)]))"
  by pat_completeness auto
termination
proof (relation "measure (\<lambda>(num, tmp). unat (bits num))")
  show "wf (measure (\<lambda>(num, tmp). unat (bits num)))" by simp
next
  fix num :: N64 and tmp :: "int list"
  assume a: "\<not> lten num 0x7f"
  let ?w = "bits num"
  have bo: "bits (of_bits s w) = w" for s w
    unfolding bits_def of_bits_def
    by (rule bit_eqI) (auto simp add: bit_simps)
  have b: "bits (isubn (ishrn num 7) 1) = drop_bit 7 ?w - 1"
    by (simp add: isubn_def ishrn_def bo)
  have "uint ?w = int (unat ?w)" by (rule uint_nat)
  with a have big: "128 \<le> unat ?w" unfolding lten_def by linarith
  have "unat (drop_bit 7 ?w) = drop_bit 7 (unat ?w)" by (rule unat_drop_bit_eq)
  also have "\<dots> = unat ?w div 128" by (simp add: drop_bit_eq_div)
  finally have d: "unat (drop_bit 7 ?w) = unat ?w div 128" .
  have pos: "1 \<le> unat ?w div 128" using big by (simp add: Suc_le_eq div_greater_zero_iff)
  have "drop_bit 7 ?w \<noteq> 0"
  proof
    assume "drop_bit 7 ?w = 0"
    then have "unat (drop_bit 7 ?w) = 0" by simp
    with d pos show False by linarith
  qed
  then have "unat (drop_bit 7 ?w - 1) = unat (drop_bit 7 ?w) - 1"
    by (rule unat_minus_one)
  also have "\<dots> = unat ?w div 128 - 1" by (simp only: d)
  also have "\<dots> < unat ?w" using pos big by (simp add: less_imp_diff_less)
  finally have "unat (bits (isubn (ishrn num 7) 1)) < unat ?w" by (simp only: b)
  then show "((isubn (ishrn num 7) 1, tmp @ [js_or (andln num 0x7f) (if length tmp \<noteq> 0 then 0x80 else 0x00)]), num, tmp)
      \<in> measure (\<lambda>(num, tmp). unat (bits num))" by simp
qed

declare writeVarint2N_tmp.simps [simp del]

definition writeVarint2N :: "buffer \<Rightarrow> N64 \<Rightarrow> int \<Rightarrow> buffer \<times> (error + int)" where
  "writeVarint2N dst num off =
     (if sign num \<noteq> 0 then (dst, Inl (EncodingError off ''Signed''))
      else if hi num = 0 then writeVarint2 dst (toInt num) off
      else
        (let tmp = writeVarint2N_tmp num []; len = length tmp - 1 in
         if \<not> off + int len + 1 \<le> int (length dst)
         then (dst, Inl (EncodingError off ''Out of bounds write''))
         else ok (emit dst off tmp len)))"

function sizeVarint2N_loop :: "N64 \<Rightarrow> int \<Rightarrow> int" where
  "sizeVarint2N_loop num sz =
     (if lten num 0x7f then sz + 1
      else sizeVarint2N_loop (isubn (ishrn num 7) 1) (sz + 1))"
  by pat_completeness auto
termination
proof (relation "measure (\<lambda>(num, sz). unat (bits num))")
  show "wf (measure (\<lambda>(num, sz). unat (bits num)))" by simp
next
  fix num :: N64 and sz :: "int"
  assume a: "\<not> lten num 0x7f"
  let ?w = "bits num"
  have bo: "bits (of_bits s w) = w" for s w
    unfolding bits_def of_bits_def
    by (rule bit_eqI) (auto simp add: bit_simps)
  have b: "bits (isubn (ishrn num 7) 1) = drop_bit 7 ?w - 1"
    by (simp add: isubn_def ishrn_def bo)
  have "uint ?w = int (unat ?w)" by (rule uint_nat)
  with a have big: "128 \<le> unat ?w" unfolding lten_def by linarith
  have "unat (drop_bit 7 ?w) = drop_bit 7 (unat ?w)" by (rule unat_drop_bit_eq)
  also have "\<dots> = unat ?w div 128" by (simp add: drop_bit_eq_div)
  finally have d: "unat (drop_bit 7 ?w) = unat ?w div 128" .
  have pos: "1 \<le> unat ?w div 128" using big by (simp add: Suc_le_eq div_greater_zero_iff)
  have "drop_bit 7 ?w \<noteq> 0"
  proof
    assume "drop_bit 7 ?w = 0"
    then have "unat (drop_bit 7 ?w) = 0" by simp
    with d pos show False by linarith
  qed
  then have "unat (drop_bit 7 ?w - 1) = unat (drop_bit 7 ?w) - 1"
    by (rule unat_minus_one)
  also have "\<dots> = unat ?w div 128 - 1" by (simp only: d)
  also have "\<dots> < unat ?w" using pos big by (simp add: less_imp_diff_less)
  finally have "unat (bits (isubn (ishrn num 7) 1)) < unat ?w" by (simp only: b)
  then show "((isubn (ishrn num 7) 1, sz + 1), num, sz)
      \<in> measure (\<lambda>(num, sz). unat (bits num))" by simp
qed

declare sizeVarint2N_loop.simps [simp del]

definition sizeVarint2N :: "N64 \<Rightarrow> error + int" where
  "sizeVarint2N num =
     (if sign num \<noteq> 0 then Inl (EncodingError 0 ''Signed'')
      else if hi num = 0 then Inr (sizeVarint2 (toInt num))
      else Inr (sizeVarint2N_loop num 0))"

section \<open>encoding.ts: sizes of prefixed payloads\<close>

text \<open>
  A string is given with its encoding, the function from the string to its bytes:
  \<open>Buffer.byteLength(str, enc)\<close> is the length of \<open>enc str\<close>.
\<close>

type_synonym encoding = "string \<Rightarrow> buffer"

definition byteLength :: "string \<Rightarrow> encoding \<Rightarrow> int" where
  "byteLength str enc = int (length (enc str))"

definition sizeVarBytes :: "buffer \<Rightarrow> int" where
  "sizeVarBytes data = sizeVarint (int (length data)) + int (length data)"

definition sizeVarlen :: "int \<Rightarrow> int" where
  "sizeVarlen len = sizeVarint len + len"

definition sizeVarString :: "string \<Rightarrow> encoding \<Rightarrow> int" where
  "sizeVarString str enc = sizeVarint (byteLength str enc) + byteLength str enc"

section \<open>Node buffers: slice, copy, write, fill, allocUnsafe\<close>

text \<open>
  \<open>slice\<close> (here \<open>buf_slice\<close>, and \<open>write\<close> is \<open>buf_write\<close>) counts a negative index from the end and
  clamps both indices to the buffer.
  \<open>copy\<close> returns the number of bytes copied, which is cut to the room left in the
  target. \<open>write\<close> stores as many bytes of the encoded string as fit. \<open>fill\<close> throws
  on a range outside the buffer. \<open>allocUnsafe\<close> returns memory that is not
  initialised: its content is the parameter \<open>mem\<close>.
\<close>

definition clamp_index :: "nat \<Rightarrow> int \<Rightarrow> nat" where
  "clamp_index len i =
     (if i < 0 then nat (int len + i) else if i > int len then len else nat i)"

definition buf_slice :: "buffer \<Rightarrow> int \<Rightarrow> int \<Rightarrow> buffer" where
  "buf_slice data s e =
     (let s' = clamp_index (length data) s; e' = clamp_index (length data) e
      in take (e' - s') (drop s' data))"

definition copy :: "buffer \<Rightarrow> buffer \<Rightarrow> int \<Rightarrow> int \<Rightarrow> int \<Rightarrow> error + (buffer \<times> int)" where
  "copy src target targetStart sourceStart sourceEnd =
     (if targetStart < 0 \<or> sourceStart < 0 \<or> sourceEnd < 0 then Inl RangeError
      else if targetStart \<ge> int (length target) \<or> sourceStart \<ge> sourceEnd then Inr (target, 0)
      else if sourceStart > int (length src) then Inl RangeError
      else
        (let n = min (min (nat (sourceEnd - sourceStart)) (length target - nat targetStart))
                   (length src - nat sourceStart)
         in Inr (take (nat targetStart) target @ take n (drop (nat sourceStart) src)
                   @ drop (nat targetStart + n) target, int n)))"

definition buf_write :: "buffer \<Rightarrow> string \<Rightarrow> int \<Rightarrow> encoding \<Rightarrow> error + (buffer \<times> int)" where
  "buf_write data str off enc =
     (if off < 0 \<or> off > int (length data) then Inl RangeError
      else
        (let n = min (length (enc str)) (length data - nat off)
         in Inr (take (nat off) data @ take n (enc str) @ drop (nat off + n) data, int n)))"

definition fill :: "buffer \<Rightarrow> int \<Rightarrow> int \<Rightarrow> int \<Rightarrow> error + buffer" where
  "fill data v s e =
     (if s < 0 \<or> e > int (length data) then Inl RangeError
      else if e \<le> s then Inr data
      else Inr (take (nat s) data @ replicate (nat (e - s)) (word_of_int v) @ drop (nat e) data))"

definition allocUnsafe :: "(nat \<Rightarrow> 8 word) \<Rightarrow> int \<Rightarrow> error + buffer" where
  "allocUnsafe mem n = (if n < 0 then Inl RangeError else Inr (map mem [0..<nat n]))"

section \<open>writer.ts: BufferWriter\<close>

text \<open>
  The queued operations. \<open>NumberOp\<close>, \<open>BufferOp\<close>, \<open>StringOp\<close>, \<open>FunctionOp\<close> and
  \<open>FillOp\<close> differ in their payload only, so one constructor per \<open>type\<close> tag carries
  it. The tag \<open>STR\<close> is written \<open>STR_op\<close>. The four float tags are left out.
\<close>

datatype WriteOp =
  SEEK int | UI8 int | UI16 int | UI16BE int | UI32 int | UI32BE int | UI64 int | UI64BE int
  | UI64N N64 | UI64BEN N64 | I8 int | I16 int | I16BE int | I32 int | I32BE int | I64 int
  | I64BE int | I64N N64 | I64BEN N64 | VARINT int | VARINTN N64 | VARINT2 int | VARINT2N N64
  | BYTES buffer | STR_op string encoding | CHECKSUM "buffer \<Rightarrow> buffer" | FILL int int

text \<open>
  The three writers all have the field \<open>offset\<close>; the records extend one another only
  to share its name.
\<close>

record SizeWriter =
  offset :: int

record BufferWriter = SizeWriter +
  ops :: "WriteOp list"

record 'b StaticWriter = SizeWriter +
  data :: 'b

definition thrown :: "buffer \<times> (error + int) \<Rightarrow> error + (buffer \<times> int)" where
  "thrown r = (case snd r of Inl e \<Rightarrow> Inl e | Inr off \<Rightarrow> Inr (fst r, off))"

text \<open>One turn of the \<open>switch\<close> in \<open>render\<close>.\<close>

fun replay_op :: "WriteOp \<Rightarrow> buffer \<Rightarrow> int \<Rightarrow> error + (buffer \<times> int)" where
  "replay_op (SEEK v) dst off = Inr (dst, off + v)"
| "replay_op (UI8 v) dst off = Inr (writeUInt8 dst v off)"
| "replay_op (UI16 v) dst off = Inr (writeUInt16LE dst v off)"
| "replay_op (UI16BE v) dst off = Inr (writeUInt16BE dst v off)"
| "replay_op (UI32 v) dst off = Inr (writeUInt32LE dst v off)"
| "replay_op (UI32BE v) dst off = Inr (writeUInt32BE dst v off)"
| "replay_op (UI64 v) dst off = Inr (writeU64 dst v off)"
| "replay_op (UI64BE v) dst off = Inr (writeU64BE dst v off)"
| "replay_op (UI64N v) dst off = thrown (writeU64N dst v off)"
| "replay_op (UI64BEN v) dst off = thrown (writeU64BEN dst v off)"
| "replay_op (I8 v) dst off = Inr (writeInt8 dst v off)"
| "replay_op (I16 v) dst off = Inr (writeInt16LE dst v off)"
| "replay_op (I16BE v) dst off = Inr (writeInt16BE dst v off)"
| "replay_op (I32 v) dst off = Inr (writeInt32LE dst v off)"
| "replay_op (I32BE v) dst off = Inr (writeInt32BE dst v off)"
| "replay_op (I64 v) dst off = Inr (writeI64 dst v off)"
| "replay_op (I64BE v) dst off = Inr (writeI64BE dst v off)"
| "replay_op (I64N v) dst off = thrown (writeI64N dst v off)"
| "replay_op (I64BEN v) dst off = thrown (writeI64BEN dst v off)"
| "replay_op (VARINT v) dst off = Inr (writeVarint dst v off)"
| "replay_op (VARINTN v) dst off = thrown (writeVarintN dst v off)"
| "replay_op (VARINT2 v) dst off = thrown (writeVarint2 dst v off)"
| "replay_op (VARINT2N v) dst off = thrown (writeVarint2N dst v off)"
| "replay_op (BYTES b) dst off =
     (case copy b dst off 0 (int (length b)) of
        Inl e \<Rightarrow> Inl e
      | Inr (d, n) \<Rightarrow> Inr (d, off + n))"
| "replay_op (STR_op v enc) dst off =
     (case buf_write dst v off enc of
        Inl e \<Rightarrow> Inl e
      | Inr (d, n) \<Rightarrow> Inr (d, off + n))"
| "replay_op (CHECKSUM func) dst off =
     (case copy (func (buf_slice dst 0 off)) dst off 0 4 of
        Inl e \<Rightarrow> Inl e
      | Inr (d, n) \<Rightarrow> Inr (d, off + n))"
| "replay_op (FILL v sz) dst off =
     (case fill dst v off (off + sz) of
        Inl e \<Rightarrow> Inl e
      | Inr d \<Rightarrow> Inr (d, off + sz))"

fun replay :: "WriteOp list \<Rightarrow> buffer \<Rightarrow> int \<Rightarrow> error + (buffer \<times> int)" where
  "replay [] dst off = Inr (dst, off)"
| "replay (op # rest) dst off =
     (case replay_op op dst off of
        Inl e \<Rightarrow> Inl e
      | Inr (d, off') \<Rightarrow> replay rest d off')"

definition BufferWriter_new :: BufferWriter where
  "BufferWriter_new = \<lparr>offset = 0, ops = []\<rparr>"

definition BufferWriter_destroy :: "BufferWriter \<Rightarrow> BufferWriter" where
  "BufferWriter_destroy w = w\<lparr>ops := [], offset := 0\<rparr>"

text \<open>\<open>render\<close> returns the buffer and the writer as \<open>destroy\<close> leaves it.\<close>

definition BufferWriter_render ::
  "(nat \<Rightarrow> 8 word) \<Rightarrow> BufferWriter \<Rightarrow> error + (buffer \<times> BufferWriter)" where
  "BufferWriter_render mem w =
     (case allocUnsafe mem (offset w) of
        Inl e \<Rightarrow> Inl e
      | Inr d0 \<Rightarrow>
          (case replay (ops w) d0 0 of
             Inl e \<Rightarrow> Inl e
           | Inr (d, off) \<Rightarrow>
               if off \<noteq> int (length d) then Inl (EncodingError off ''Out of bounds write'')
               else Inr (d, BufferWriter_destroy w)))"

definition BufferWriter_getSize :: "BufferWriter \<Rightarrow> int" where
  "BufferWriter_getSize w = offset w"

definition push :: "int \<Rightarrow> WriteOp \<Rightarrow> BufferWriter \<Rightarrow> BufferWriter" where
  "push n op w = w\<lparr>offset := offset w + n, ops := ops w @ [op]\<rparr>"

definition BufferWriter_seek :: "int \<Rightarrow> BufferWriter \<Rightarrow> BufferWriter" where
  "BufferWriter_seek off w = push off (SEEK off) w"

definition BufferWriter_writeU8 :: "int \<Rightarrow> BufferWriter \<Rightarrow> BufferWriter" where
  "BufferWriter_writeU8 v w = push 1 (UI8 v) w"

definition BufferWriter_writeU16 :: "int \<Rightarrow> BufferWriter \<Rightarrow> BufferWriter" where
  "BufferWriter_writeU16 v w = push 2 (UI16 v) w"

definition BufferWriter_writeU16BE :: "int \<Rightarrow> BufferWriter \<Rightarrow> BufferWriter" where
  "BufferWriter_writeU16BE v w = push 2 (UI16BE v) w"

definition BufferWriter_writeU32 :: "int \<Rightarrow> BufferWriter \<Rightarrow> BufferWriter" where
  "BufferWriter_writeU32 v w = push 4 (UI32 v) w"

definition BufferWriter_writeU32BE :: "int \<Rightarrow> BufferWriter \<Rightarrow> BufferWriter" where
  "BufferWriter_writeU32BE v w = push 4 (UI32BE v) w"

definition BufferWriter_writeU64 :: "int \<Rightarrow> BufferWriter \<Rightarrow> BufferWriter" where
  "BufferWriter_writeU64 v w = push 8 (UI64 v) w"

definition BufferWriter_writeU64BE :: "int \<Rightarrow> BufferWriter \<Rightarrow> BufferWriter" where
  "BufferWriter_writeU64BE v w = push 8 (UI64BE v) w"

definition BufferWriter_writeU64N :: "N64 \<Rightarrow> BufferWriter \<Rightarrow> BufferWriter" where
  "BufferWriter_writeU64N v w = push 8 (UI64N v) w"

definition BufferWriter_writeU64BEN :: "N64 \<Rightarrow> BufferWriter \<Rightarrow> BufferWriter" where
  "BufferWriter_writeU64BEN v w = push 8 (UI64BEN v) w"

definition BufferWriter_writeI8 :: "int \<Rightarrow> BufferWriter \<Rightarrow> BufferWriter" where
  "BufferWriter_writeI8 v w = push 1 (I8 v) w"

definition BufferWriter_writeI16 :: "int \<Rightarrow> BufferWriter \<Rightarrow> BufferWriter" where
  "BufferWriter_writeI16 v w = push 2 (I16 v) w"

definition BufferWriter_writeI16BE :: "int \<Rightarrow> BufferWriter \<Rightarrow> BufferWriter" where
  "BufferWriter_writeI16BE v w = push 2 (I16BE v) w"

definition BufferWriter_writeI32 :: "int \<Rightarrow> BufferWriter \<Rightarrow> BufferWriter" where
  "BufferWriter_writeI32 v w = push 4 (I32 v) w"

definition BufferWriter_writeI32BE :: "int \<Rightarrow> BufferWriter \<Rightarrow> BufferWriter" where
  "BufferWriter_writeI32BE v w = push 4 (I32BE v) w"

definition BufferWriter_writeI64 :: "int \<Rightarrow> BufferWriter \<Rightarrow> BufferWriter" where
  "BufferWriter_writeI64 v w = push 8 (I64 v) w"

definition BufferWriter_writeI64BE :: "int \<Rightarrow> BufferWriter \<Rightarrow> BufferWriter" where
  "BufferWriter_writeI64BE v w = push 8 (I64BE v) w"

definition BufferWriter_writeI64N :: "N64 \<Rightarrow> BufferWriter \<Rightarrow> BufferWriter" where
  "BufferWriter_writeI64N v w = push 8 (I64N v) w"

definition BufferWriter_writeI64BEN :: "N64 \<Rightarrow> BufferWriter \<Rightarrow> BufferWriter" where
  "BufferWriter_writeI64BEN v w = push 8 (I64BEN v) w"

definition BufferWriter_writeVarint :: "int \<Rightarrow> BufferWriter \<Rightarrow> BufferWriter" where
  "BufferWriter_writeVarint v w = push (sizeVarint v) (VARINT v) w"

definition BufferWriter_writeVarintN :: "N64 \<Rightarrow> BufferWriter \<Rightarrow> error + BufferWriter" where
  "BufferWriter_writeVarintN v w =
     (case sizeVarintN v of Inl e \<Rightarrow> Inl e | Inr n \<Rightarrow> Inr (push n (VARINTN v) w))"

definition BufferWriter_writeVarint2 :: "int \<Rightarrow> BufferWriter \<Rightarrow> BufferWriter" where
  "BufferWriter_writeVarint2 v w = push (sizeVarint2 v) (VARINT2 v) w"

definition BufferWriter_writeVarint2N :: "N64 \<Rightarrow> BufferWriter \<Rightarrow> error + BufferWriter" where
  "BufferWriter_writeVarint2N v w =
     (case sizeVarint2N v of Inl e \<Rightarrow> Inl e | Inr n \<Rightarrow> Inr (push n (VARINT2N v) w))"

definition BufferWriter_writeBytes :: "buffer \<Rightarrow> BufferWriter \<Rightarrow> BufferWriter" where
  "BufferWriter_writeBytes v w =
     (if length v = 0 then w else push (int (length v)) (BYTES v) w)"

definition BufferWriter_writeVarBytes :: "buffer \<Rightarrow> BufferWriter \<Rightarrow> BufferWriter" where
  "BufferWriter_writeVarBytes v w =
     (let w1 = push (sizeVarint (int (length v))) (VARINT (int (length v))) w in
      if length v = 0 then w1 else push (int (length v)) (BYTES v) w1)"

definition BufferWriter_copy :: "buffer \<Rightarrow> int \<Rightarrow> int \<Rightarrow> BufferWriter \<Rightarrow> error + BufferWriter" where
  "BufferWriter_copy v s e w =
     (if \<not> e \<ge> s then Inl AssertionError else Inr (BufferWriter_writeBytes (buf_slice v s e) w))"

definition BufferWriter_writeString :: "string \<Rightarrow> encoding \<Rightarrow> BufferWriter \<Rightarrow> BufferWriter" where
  "BufferWriter_writeString v enc w =
     (if length v = 0 then w else push (byteLength v enc) (STR_op v enc) w)"

text \<open>With an empty string only the operation is queued; \<open>offset\<close> stays as it is.\<close>

definition BufferWriter_writeVarString :: "string \<Rightarrow> encoding \<Rightarrow> BufferWriter \<Rightarrow> BufferWriter" where
  "BufferWriter_writeVarString v enc w =
     (if length v = 0 then w\<lparr>ops := ops w @ [VARINT 0]\<rparr>
      else
        (let sz = byteLength v enc;
             w1 = w\<lparr>offset := offset w + sizeVarint sz\<rparr>;
             w2 = w1\<lparr>offset := offset w1 + sz\<rparr>;
             w3 = w2\<lparr>ops := ops w2 @ [VARINT sz]\<rparr>
         in w3\<lparr>ops := ops w3 @ [STR_op v enc]\<rparr>))"

definition BufferWriter_writeNullString :: "string \<Rightarrow> encoding \<Rightarrow> BufferWriter \<Rightarrow> BufferWriter" where
  "BufferWriter_writeNullString v enc w = BufferWriter_writeU8 0 (BufferWriter_writeString v enc w)"

definition BufferWriter_writeChecksum :: "(buffer \<Rightarrow> buffer) \<Rightarrow> BufferWriter \<Rightarrow> BufferWriter" where
  "BufferWriter_writeChecksum hash w = push 4 (CHECKSUM hash) w"

definition BufferWriter_fill :: "int \<Rightarrow> int \<Rightarrow> BufferWriter \<Rightarrow> error + BufferWriter" where
  "BufferWriter_fill v sz w =
     (if \<not> sz \<ge> 0 then Inl AssertionError
      else if sz = 0 then Inr w
      else Inr (push sz (FILL v sz) w))"

section \<open>staticwriter.ts: StaticWriter\<close>

text \<open>
  A method that can throw returns \<open>error + writer\<close>. The writer holds its buffer by
  value here; the slab shared by pooled writers is modelled apart, below. The string
  methods call \<open>data.write(value, offset, undefined, enc)\<close>: the length argument is
  absent, so the write goes up to the end of the buffer, in the encoding \<open>enc\<close>.
  \<open>writeHash\<close> and the four float methods are left out, here and in the other writers.
\<close>

definition StaticWriter_new :: "buffer StaticWriter" where
  "StaticWriter_new = \<lparr>offset = 0, data = []\<rparr>"

definition StaticWriter_init_buffer :: "buffer \<Rightarrow> buffer StaticWriter \<Rightarrow> buffer StaticWriter" where
  "StaticWriter_init_buffer b w = w\<lparr>data := b, offset := 0\<rparr>"

definition StaticWriter_init_size ::
  "(nat \<Rightarrow> 8 word) \<Rightarrow> int \<Rightarrow> buffer StaticWriter \<Rightarrow> error + buffer StaticWriter" where
  "StaticWriter_init_size mem n w =
     (if \<not> toUint32 n = n then Inl AssertionError
      else case allocUnsafe mem n of
        Inl e \<Rightarrow> Inl e
      | Inr b \<Rightarrow> Inr (w\<lparr>data := b, offset := 0\<rparr>))"

definition StaticWriter_destroy :: "buffer StaticWriter \<Rightarrow> buffer StaticWriter" where
  "StaticWriter_destroy w = w\<lparr>data := [], offset := 0\<rparr>"

definition StaticWriter_render :: "buffer StaticWriter \<Rightarrow> error + (buffer \<times> buffer StaticWriter)" where
  "StaticWriter_render w =
     (if offset w \<noteq> int (length (data w)) then Inl (EncodingError (offset w) ''Out of bounds write'')
      else Inr (data w, StaticWriter_destroy w))"

definition StaticWriter_slice :: "buffer StaticWriter \<Rightarrow> error + (buffer \<times> buffer StaticWriter)" where
  "StaticWriter_slice w =
     (if offset w > int (length (data w)) then Inl (EncodingError (offset w) ''Out of bounds write'')
      else Inr (buf_slice (data w) 0 (offset w), StaticWriter_destroy w))"

definition StaticWriter_getSize :: "buffer StaticWriter \<Rightarrow> int" where
  "StaticWriter_getSize w = offset w"

definition StaticWriter_seek :: "int \<Rightarrow> buffer StaticWriter \<Rightarrow> buffer StaticWriter" where
  "StaticWriter_seek off w = w\<lparr>offset := offset w + off\<rparr>"

definition store :: "buffer \<times> int \<Rightarrow> buffer StaticWriter \<Rightarrow> buffer StaticWriter" where
  "store r w = w\<lparr>data := fst r, offset := snd r\<rparr>"

definition StaticWriter_writeU8 :: "int \<Rightarrow> buffer StaticWriter \<Rightarrow> buffer StaticWriter" where
  "StaticWriter_writeU8 v w = store (writeUInt8 (data w) v (offset w)) w"

definition StaticWriter_writeU16 :: "int \<Rightarrow> buffer StaticWriter \<Rightarrow> buffer StaticWriter" where
  "StaticWriter_writeU16 v w = store (writeUInt16LE (data w) v (offset w)) w"

definition StaticWriter_writeU16BE :: "int \<Rightarrow> buffer StaticWriter \<Rightarrow> buffer StaticWriter" where
  "StaticWriter_writeU16BE v w = store (writeUInt16BE (data w) v (offset w)) w"

definition StaticWriter_writeU32 :: "int \<Rightarrow> buffer StaticWriter \<Rightarrow> buffer StaticWriter" where
  "StaticWriter_writeU32 v w = store (writeUInt32LE (data w) v (offset w)) w"

definition StaticWriter_writeU32BE :: "int \<Rightarrow> buffer StaticWriter \<Rightarrow> buffer StaticWriter" where
  "StaticWriter_writeU32BE v w = store (writeUInt32BE (data w) v (offset w)) w"

definition StaticWriter_writeU64 :: "int \<Rightarrow> buffer StaticWriter \<Rightarrow> buffer StaticWriter" where
  "StaticWriter_writeU64 v w = store (writeU64 (data w) v (offset w)) w"

definition StaticWriter_writeU64BE :: "int \<Rightarrow> buffer StaticWriter \<Rightarrow> buffer StaticWriter" where
  "StaticWriter_writeU64BE v w = store (writeU64BE (data w) v (offset w)) w"

definition StaticWriter_writeU64N :: "N64 \<Rightarrow> buffer StaticWriter \<Rightarrow> error + buffer StaticWriter" where
  "StaticWriter_writeU64N v w =
     (case thrown (writeU64N (data w) v (offset w)) of Inl e \<Rightarrow> Inl e | Inr r \<Rightarrow> Inr (store r w))"

definition StaticWriter_writeU64BEN :: "N64 \<Rightarrow> buffer StaticWriter \<Rightarrow> error + buffer StaticWriter" where
  "StaticWriter_writeU64BEN v w =
     (case thrown (writeU64BEN (data w) v (offset w)) of Inl e \<Rightarrow> Inl e | Inr r \<Rightarrow> Inr (store r w))"

definition StaticWriter_writeI8 :: "int \<Rightarrow> buffer StaticWriter \<Rightarrow> buffer StaticWriter" where
  "StaticWriter_writeI8 v w = store (writeInt8 (data w) v (offset w)) w"

definition StaticWriter_writeI16 :: "int \<Rightarrow> buffer StaticWriter \<Rightarrow> buffer StaticWriter" where
  "StaticWriter_writeI16 v w = store (writeInt16LE (data w) v (offset w)) w"

definition StaticWriter_writeI16BE :: "int \<Rightarrow> buffer StaticWriter \<Rightarrow> buffer StaticWriter" where
  "StaticWriter_writeI16BE v w = store (writeInt16BE (data w) v (offset w)) w"

definition StaticWriter_writeI32 :: "int \<Rightarrow> buffer StaticWriter \<Rightarrow> buffer StaticWriter" where
  "StaticWriter_writeI32 v w = store (writeInt32LE (data w) v (offset w)) w"

definition StaticWriter_writeI32BE :: "int \<Rightarrow> buffer StaticWriter \<Rightarrow> buffer StaticWriter" where
  "StaticWriter_writeI32BE v w = store (writeInt32BE (data w) v (offset w)) w"

definition StaticWriter_writeI64 :: "int \<Rightarrow> buffer StaticWriter \<Rightarrow> buffer StaticWriter" where
  "StaticWriter_writeI64 v w = store (writeI64 (data w) v (offset w)) w"

definition StaticWriter_writeI64BE :: "int \<Rightarrow> buffer StaticWriter \<Rightarrow> buffer StaticWriter" where
  "StaticWriter_writeI64BE v w = store (writeI64BE (data w) v (offset w)) w"

definition StaticWriter_writeI64N :: "N64 \<Rightarrow> buffer StaticWriter \<Rightarrow> error + buffer StaticWriter" where
  "StaticWriter_writeI64N v w =
     (case thrown (writeI64N (data w) v (offset w)) of Inl e \<Rightarrow> Inl e | Inr r \<Rightarrow> Inr (store r w))"

definition StaticWriter_writeI64BEN :: "N64 \<Rightarrow> buffer StaticWriter \<Rightarrow> error + buffer StaticWriter" where
  "StaticWriter_writeI64BEN v w =
     (case thrown (writeI64BEN (data w) v (offset w)) of Inl e \<Rightarrow> Inl e | Inr r \<Rightarrow> Inr (store r w))"

definition StaticWriter_writeVarint :: "int \<Rightarrow> buffer StaticWriter \<Rightarrow> buffer StaticWriter" where
  "StaticWriter_writeVarint v w = store (writeVarint (data w) v (offset w)) w"

definition StaticWriter_writeVarintN :: "N64 \<Rightarrow> buffer StaticWriter \<Rightarrow> error + buffer StaticWriter" where
  "StaticWriter_writeVarintN v w =
     (case thrown (writeVarintN (data w) v (offset w)) of Inl e \<Rightarrow> Inl e | Inr r \<Rightarrow> Inr (store r w))"

definition StaticWriter_writeVarint2 :: "int \<Rightarrow> buffer StaticWriter \<Rightarrow> error + buffer StaticWriter" where
  "StaticWriter_writeVarint2 v w =
     (case thrown (writeVarint2 (data w) v (offset w)) of Inl e \<Rightarrow> Inl e | Inr r \<Rightarrow> Inr (store r w))"

definition StaticWriter_writeVarint2N :: "N64 \<Rightarrow> buffer StaticWriter \<Rightarrow> error + buffer StaticWriter" where
  "StaticWriter_writeVarint2N v w =
     (case thrown (writeVarint2N (data w) v (offset w)) of Inl e \<Rightarrow> Inl e | Inr r \<Rightarrow> Inr (store r w))"

definition StaticWriter_writeBytes :: "buffer \<Rightarrow> buffer StaticWriter \<Rightarrow> error + buffer StaticWriter" where
  "StaticWriter_writeBytes v w =
     (if length v = 0 then Inr w
      else case copy v (data w) (offset w) 0 (int (length v)) of
        Inl e \<Rightarrow> Inl e
      | Inr (d, n) \<Rightarrow> Inr (w\<lparr>data := d, offset := offset w + int (length v)\<rparr>))"

definition StaticWriter_writeVarBytes :: "buffer \<Rightarrow> buffer StaticWriter \<Rightarrow> error + buffer StaticWriter" where
  "StaticWriter_writeVarBytes v w =
     StaticWriter_writeBytes v (StaticWriter_writeVarint (int (length v)) w)"

definition StaticWriter_copy ::
  "buffer \<Rightarrow> int \<Rightarrow> int \<Rightarrow> buffer StaticWriter \<Rightarrow> error + buffer StaticWriter" where
  "StaticWriter_copy v s e w =
     (if e - s = 0 then Inr w
      else case copy v (data w) (offset w) s e of
        Inl err \<Rightarrow> Inl err
      | Inr (d, n) \<Rightarrow> Inr (w\<lparr>data := d, offset := offset w + (e - s)\<rparr>))"

definition StaticWriter_writeString ::
  "string \<Rightarrow> encoding \<Rightarrow> buffer StaticWriter \<Rightarrow> error + buffer StaticWriter" where
  "StaticWriter_writeString v enc w =
     (if length v = 0 then Inr w
      else case buf_write (data w) v (offset w) enc of
        Inl e \<Rightarrow> Inl e
      | Inr (d, n) \<Rightarrow> Inr (w\<lparr>data := d, offset := offset w + byteLength v enc\<rparr>))"

definition StaticWriter_writeVarString ::
  "string \<Rightarrow> encoding \<Rightarrow> buffer StaticWriter \<Rightarrow> error + buffer StaticWriter" where
  "StaticWriter_writeVarString v enc w =
     (if length v = 0 then Inr (StaticWriter_writeVarint 0 w)
      else
        (let w1 = StaticWriter_writeVarint (byteLength v enc) w in
         case buf_write (data w1) v (offset w1) enc of
           Inl e \<Rightarrow> Inl e
         | Inr (d, n) \<Rightarrow> Inr (w1\<lparr>data := d, offset := offset w1 + byteLength v enc\<rparr>)))"

definition StaticWriter_writeNullString ::
  "string \<Rightarrow> encoding \<Rightarrow> buffer StaticWriter \<Rightarrow> error + buffer StaticWriter" where
  "StaticWriter_writeNullString v enc w =
     (case StaticWriter_writeString v enc w of
        Inl e \<Rightarrow> Inl e
      | Inr w1 \<Rightarrow> Inr (StaticWriter_writeU8 0 w1))"

definition StaticWriter_writeChecksum ::
  "(buffer \<Rightarrow> buffer) \<Rightarrow> buffer StaticWriter \<Rightarrow> error + buffer StaticWriter" where
  "StaticWriter_writeChecksum hash w =
     (case copy (hash (buf_slice (data w) 0 (offset w))) (data w) (offset w) 0 4 of
        Inl e \<Rightarrow> Inl e
      | Inr (d, n) \<Rightarrow> Inr (w\<lparr>data := d, offset := offset w + 4\<rparr>))"

definition StaticWriter_fill :: "int \<Rightarrow> int \<Rightarrow> buffer StaticWriter \<Rightarrow> error + buffer StaticWriter" where
  "StaticWriter_fill v sz w =
     (if \<not> sz \<ge> 0 then Inl AssertionError
      else if sz = 0 then Inr w
      else case fill (data w) v (offset w) (offset w + sz) of
        Inl e \<Rightarrow> Inl e
      | Inr d \<Rightarrow> Inr (w\<lparr>data := d, offset := offset w + sz\<rparr>))"

section \<open>staticwriter.ts: the pool\<close>

text \<open>
  \<open>POOL\<close> is one slab shared by the writers that \<open>StaticWriter.pool\<close> returns, and
  \<open>POOL.slice\<close> shares its memory. To say which bytes two writers share, a buffer is here
  a window on a numbered slab, and the module state is the variable \<open>POOL\<close> with the
  number of the next slab to allocate.
\<close>

record view =
  slab :: nat
  first :: nat
  count :: nat

record heap =
  next_slab :: nat
  POOL :: "view option"

definition POOLSIZE :: int where
  "POOLSIZE = 102400"

definition alloc :: "heap \<Rightarrow> int \<Rightarrow> error + (heap \<times> view)" where
  "alloc h n =
     (if n < 0 then Inl RangeError
      else Inr (h\<lparr>next_slab := next_slab h + 1\<rparr>, \<lparr>slab = next_slab h, first = 0, count = nat n\<rparr>))"

definition view_slice :: "view \<Rightarrow> int \<Rightarrow> int \<Rightarrow> view" where
  "view_slice b s e =
     (let s' = clamp_index (count b) s; e' = clamp_index (count b) e
      in \<lparr>slab = slab b, first = first b + s', count = e' - s'\<rparr>)"

definition StaticWriter_pool :: "heap \<Rightarrow> int \<Rightarrow> error + (heap \<times> view StaticWriter)" where
  "StaticWriter_pool h sz =
     (if sz \<le> POOLSIZE then
        (case POOL h of
           None \<Rightarrow>
             (case alloc h POOLSIZE of
                Inl e \<Rightarrow> Inl e
              | Inr (h1, p) \<Rightarrow> Inr (h1\<lparr>POOL := Some p\<rparr>, \<lparr>offset = 0, data = view_slice p 0 sz\<rparr>))
         | Some p \<Rightarrow> Inr (h, \<lparr>offset = 0, data = view_slice p 0 sz\<rparr>))
      else if \<not> toUint32 sz = sz then Inl AssertionError
      else case alloc h sz of
        Inl e \<Rightarrow> Inl e
      | Inr (h1, b) \<Rightarrow> Inr (h1, \<lparr>offset = 0, data = b\<rparr>))"

text \<open>The bytes of the slabs that a buffer can address.\<close>

definition addressable :: "view \<Rightarrow> (nat \<times> nat) set" where
  "addressable b = (\<lambda>i. (slab b, i)) ` {first b ..< first b + count b}"

text \<open>
  A program calls \<open>pool\<close> many times. \<open>pool_calls h ss\<close> makes the calls
  \<open>pool(ss\<^sub>0)\<close>, \<open>pool(ss\<^sub>1)\<close>, ... one after the other from the module state \<open>h\<close>
  and collects the writers returned, in order; it stops at the first call that throws.
\<close>

fun pool_calls :: "heap \<Rightarrow> int list \<Rightarrow> error + (heap \<times> view StaticWriter list)" where
  "pool_calls h [] = Inr (h, [])"
| "pool_calls h (sz # rest) =
     (case StaticWriter_pool h sz of
        Inl e \<Rightarrow> Inl e
      | Inr (h1, w) \<Rightarrow>
          (case pool_calls h1 rest of
             Inl e \<Rightarrow> Inl e
           | Inr (h2, ws) \<Rightarrow> Inr (h2, w # ws)))"

text \<open>
  The module state as the calls to \<open>pool\<close> leave it: the pool, once allocated, is a whole
  slab of \<open>POOLSIZE\<close> bytes whose number is below the next number to hand out.
\<close>

definition heap_ok :: "heap \<Rightarrow> bool" where
  "heap_ok h = (case POOL h of None \<Rightarrow> True
                | Some p \<Rightarrow> slab p < next_slab h \<and> first p = 0 \<and> int (count p) = POOLSIZE)"

section \<open>sizewriter.ts: SizeWriter\<close>

definition SizeWriter_new :: SizeWriter where
  "SizeWriter_new = \<lparr>offset = 0\<rparr>"

definition SizeWriter_destroy :: "SizeWriter \<Rightarrow> SizeWriter" where
  "SizeWriter_destroy w = w\<lparr>offset := 0\<rparr>"

definition SizeWriter_render :: "SizeWriter \<Rightarrow> int \<times> SizeWriter" where
  "SizeWriter_render w = (offset w, SizeWriter_destroy w)"

definition SizeWriter_getSize :: "SizeWriter \<Rightarrow> int" where
  "SizeWriter_getSize w = offset w"

definition advance :: "int \<Rightarrow> SizeWriter \<Rightarrow> SizeWriter" where
  "advance n w = w\<lparr>offset := offset w + n\<rparr>"

definition SizeWriter_seek :: "int \<Rightarrow> SizeWriter \<Rightarrow> SizeWriter" where
  "SizeWriter_seek off w = advance off w"

definition SizeWriter_writeU8 :: "int \<Rightarrow> SizeWriter \<Rightarrow> SizeWriter" where
  "SizeWriter_writeU8 v w = advance 1 w"

definition SizeWriter_writeU16 :: "int \<Rightarrow> SizeWriter \<Rightarrow> SizeWriter" where
  "SizeWriter_writeU16 v w = advance 2 w"

definition SizeWriter_writeU16BE :: "int \<Rightarrow> SizeWriter \<Rightarrow> SizeWriter" where
  "SizeWriter_writeU16BE v w = advance 2 w"

definition SizeWriter_writeU32 :: "int \<Rightarrow> SizeWriter \<Rightarrow> SizeWriter" where
  "SizeWriter_writeU32 v w = advance 4 w"

definition SizeWriter_writeU32BE :: "int \<Rightarrow> SizeWriter \<Rightarrow> SizeWriter" where
  "SizeWriter_writeU32BE v w = advance 4 w"

definition SizeWriter_writeU64 :: "int \<Rightarrow> SizeWriter \<Rightarrow> SizeWriter" where
  "SizeWriter_writeU64 v w = advance 8 w"

definition SizeWriter_writeU64BE :: "int \<Rightarrow> SizeWriter \<Rightarrow> SizeWriter" where
  "SizeWriter_writeU64BE v w = advance 8 w"

definition SizeWriter_writeI8 :: "int \<Rightarrow> SizeWriter \<Rightarrow> SizeWriter" where
  "SizeWriter_writeI8 v w = advance 1 w"

definition SizeWriter_writeI16 :: "int \<Rightarrow> SizeWriter \<Rightarrow> SizeWriter" where
  "SizeWriter_writeI16 v w = advance 2 w"

definition SizeWriter_writeI16BE :: "int \<Rightarrow> SizeWriter \<Rightarrow> SizeWriter" where
  "SizeWriter_writeI16BE v w = advance 2 w"

definition SizeWriter_writeI32 :: "int \<Rightarrow> SizeWriter \<Rightarrow> SizeWriter" where
  "SizeWriter_writeI32 v w = advance 4 w"

definition SizeWriter_writeI32BE :: "int \<Rightarrow> SizeWriter \<Rightarrow> SizeWriter" where
  "SizeWriter_writeI32BE v w = advance 4 w"

definition SizeWriter_writeI64 :: "int \<Rightarrow> SizeWriter \<Rightarrow> SizeWriter" where
  "SizeWriter_writeI64 v w = advance 8 w"

definition SizeWriter_writeI64BE :: "int \<Rightarrow> SizeWriter \<Rightarrow> SizeWriter" where
  "SizeWriter_writeI64BE v w = advance 8 w"

definition SizeWriter_writeU64N :: "N64 \<Rightarrow> SizeWriter \<Rightarrow> SizeWriter" where
  "SizeWriter_writeU64N v w = advance 8 w"

definition SizeWriter_writeU64BEN :: "N64 \<Rightarrow> SizeWriter \<Rightarrow> SizeWriter" where
  "SizeWriter_writeU64BEN v w = advance 8 w"

definition SizeWriter_writeI64N :: "N64 \<Rightarrow> SizeWriter \<Rightarrow> SizeWriter" where
  "SizeWriter_writeI64N v w = advance 8 w"

definition SizeWriter_writeI64BEN :: "N64 \<Rightarrow> SizeWriter \<Rightarrow> SizeWriter" where
  "SizeWriter_writeI64BEN v w = advance 8 w"

definition SizeWriter_writeVarint :: "int \<Rightarrow> SizeWriter \<Rightarrow> SizeWriter" where
  "SizeWriter_writeVarint v w = advance (sizeVarint v) w"

definition SizeWriter_writeVarintN :: "N64 \<Rightarrow> SizeWriter \<Rightarrow> error + SizeWriter" where
  "SizeWriter_writeVarintN v w =
     (case sizeVarintN v of Inl e \<Rightarrow> Inl e | Inr n \<Rightarrow> Inr (advance n w))"

definition SizeWriter_writeVarint2 :: "int \<Rightarrow> SizeWriter \<Rightarrow> SizeWriter" where
  "SizeWriter_writeVarint2 v w = advance (sizeVarint2 v) w"

definition SizeWriter_writeVarint2N :: "N64 \<Rightarrow> SizeWriter \<Rightarrow> error + SizeWriter" where
  "SizeWriter_writeVarint2N v w =
     (case sizeVarint2N v of Inl e \<Rightarrow> Inl e | Inr n \<Rightarrow> Inr (advance n w))"

definition SizeWriter_writeBytes :: "buffer \<Rightarrow> SizeWriter \<Rightarrow> SizeWriter" where
  "SizeWriter_writeBytes v w = advance (int (length v)) w"

definition SizeWriter_writeVarBytes :: "buffer \<Rightarrow> SizeWriter \<Rightarrow> SizeWriter" where
  "SizeWriter_writeVarBytes v w = SizeWriter_writeBytes v (SizeWriter_writeVarint (int (length v)) w)"

definition SizeWriter_copy :: "buffer \<Rightarrow> int \<Rightarrow> int \<Rightarrow> SizeWriter \<Rightarrow> SizeWriter" where
  "SizeWriter_copy v s e w = advance (e - s) w"

definition SizeWriter_writeString :: "string \<Rightarrow> encoding \<Rightarrow> SizeWriter \<Rightarrow> SizeWriter" where
  "SizeWriter_writeString v enc w = (if length v = 0 then w else advance (byteLength v enc) w)"

definition SizeWriter_writeVarString :: "string \<Rightarrow> encoding \<Rightarrow> SizeWriter \<Rightarrow> SizeWriter" where
  "SizeWriter_writeVarString v enc w =
     (if length v = 0 then advance 1 w
      else advance (byteLength v enc) (SizeWriter_writeVarint (byteLength v enc) w))"

definition SizeWriter_writeNullString :: "string \<Rightarrow> encoding \<Rightarrow> SizeWriter \<Rightarrow> SizeWriter" where
  "SizeWriter_writeNullString v enc w = SizeWriter_writeU8 0 (SizeWriter_writeString v enc w)"

definition SizeWriter_writeChecksum :: "(buffer \<Rightarrow> buffer) \<Rightarrow> SizeWriter \<Rightarrow> SizeWriter" where
  "SizeWriter_writeChecksum hash w = advance 4 w"

definition SizeWriter_fill :: "int \<Rightarrow> int \<Rightarrow> SizeWriter \<Rightarrow> SizeWriter" where
  "SizeWriter_fill v sz w = advance sz w"

section \<open>The encodings in the words of the specification\<close>

text \<open>
  These definitions are not taken from the code; the properties below compare the code
  with them. \<open>byte_of x k\<close> is byte \<open>k\<close> of \<open>x\<close>, the low byte being byte 0, and
  \<open>le_bytes n x\<close> is the little-endian encoding of \<open>x\<close> in \<open>n\<close> bytes.
\<close>

definition byte_of :: "int \<Rightarrow> nat \<Rightarrow> int" where
  "byte_of x k = take_bit 8 (x div 256 ^ k)"

definition le_bytes :: "nat \<Rightarrow> int \<Rightarrow> buffer" where
  "le_bytes n x = map (\<lambda>k. word_of_int (x div 256 ^ k)) [0..<n]"

text \<open>
  Varint scheme A: a single byte for values below \<open>0xFD\<close>; the byte \<open>0xFD\<close> and two
  little-endian bytes for values fitting 16 bits; \<open>0xFE\<close> and four bytes for 32 bits;
  \<open>0xFF\<close> and eight bytes otherwise. \<open>varint_forms v\<close> lists every form that encodes
  \<open>v\<close>, canonical or not; \<open>varint_shortest v\<close> is the form the thresholds select.
\<close>

definition varint_forms :: "int \<Rightarrow> buffer list" where
  "varint_forms v =
     (if 0 \<le> v \<and> v < 0xfd then [[word_of_int v]] else [])
     @ (if 0 \<le> v \<and> v \<le> 0xffff then [0xfd # le_bytes 2 v] else [])
     @ (if 0 \<le> v \<and> v \<le> 0xffffffff then [0xfe # le_bytes 4 v] else [])
     @ (if 0 \<le> v \<and> v < 2 ^ 64 then [0xff # le_bytes 8 v] else [])"

definition varint_shortest :: "int \<Rightarrow> buffer" where
  "varint_shortest v =
     (if v < 0xfd then [word_of_int v]
      else if v \<le> 0xffff then 0xfd # le_bytes 2 v
      else if v \<le> 0xffffffff then 0xfe # le_bytes 4 v
      else 0xff # le_bytes 8 v)"

section \<open>Properties\<close>

subsection \<open>Sign flags of the extended-precision entry points\<close>

text \<open>
  C10. \<open>writeU64N\<close>, \<open>writeU64BEN\<close>, \<open>writeVarintN\<close>, \<open>writeVarint2N\<close>,
  \<open>sizeVarintN\<close> and \<open>sizeVarint2N\<close> throw an EncodingError with reason \<open>Signed\<close>
  whenever the number carries the signed flag, and \<open>writeI64N\<close> and \<open>writeI64BEN\<close>
  throw with reason \<open>Not signed\<close> whenever it does not. The buffer comes back as it
  went in: no byte is written.
\<close>

theorem sign_flag_enforced:
  "(sign num \<noteq> 0 \<longrightarrow>
      writeU64N dst num off = (dst, Inl (EncodingError off ''Signed'')) \<and>
      writeU64BEN dst num off = (dst, Inl (EncodingError off ''Signed'')) \<and>
      writeVarintN dst num off = (dst, Inl (EncodingError off ''Signed'')) \<and>
      writeVarint2N dst num off = (dst, Inl (EncodingError off ''Signed'')) \<and>
      sizeVarintN num = Inl (EncodingError 0 ''Signed'') \<and>
      sizeVarint2N num = Inl (EncodingError 0 ''Signed''))
   \<and> (sign num = 0 \<longrightarrow>
      writeI64N dst num off = (dst, Inl (EncodingError off ''Not signed'')) \<and>
      writeI64BEN dst num off = (dst, Inl (EncodingError off ''Not signed'')))"
  by (simp add: writeU64N_def writeU64BEN_def writeVarintN_def writeVarint2N_def sizeVarintN_def
      sizeVarint2N_def writeI64N_def writeI64BEN_def)

theorem sign_flag_enforced_witness:
  "writeU64N [1, 2] \<lparr>hi = 0, lo = 7, sign = 1\<rparr> 0 = ([1, 2], Inl (EncodingError 0 ''Signed'')) \<and>
   sizeVarint2N \<lparr>hi = 0, lo = 7, sign = 1\<rparr> = Inl (EncodingError 0 ''Signed'') \<and>
   writeI64BEN [1, 2] \<lparr>hi = 0, lo = 7, sign = 0\<rparr> 0 = ([1, 2], Inl (EncodingError 0 ''Not signed''))"
  using sign_flag_enforced [of "\<lparr>hi = 0, lo = 7, sign = 1\<rparr>" "[1, 2]" 0]
        sign_flag_enforced [of "\<lparr>hi = 0, lo = 7, sign = 0\<rparr>" "[1, 2]" 0]
  by simp

subsection \<open>The empty string in \<open>writeVarString\<close>\<close>

text \<open>
  C3. The total of a SizeWriter should equal the length of the buffer that a
  BufferWriter renders after the same operations. With the single operation
  \<open>writeVarString('')\<close> the SizeWriter counts one byte, while the BufferWriter queues
  the length prefix without counting it, allocates no byte, and \<open>render\<close> throws.
\<close>

theorem size_accounting_empty_varstring:
  "fst (SizeWriter_render (SizeWriter_writeVarString [] enc SizeWriter_new)) = 1 \<and>
   BufferWriter_render mem (BufferWriter_writeVarString [] enc BufferWriter_new)
     = Inl (EncodingError 1 ''Out of bounds write'')"
  by (simp add: SizeWriter_render_def SizeWriter_writeVarString_def SizeWriter_new_def advance_def
      BufferWriter_render_def BufferWriter_writeVarString_def BufferWriter_new_def allocUnsafe_def
      writeVarint_def put_def)

text \<open>
  C4. A zero-length payload still writes its length prefix, the byte 0. This holds for
  \<open>writeVarBytes\<close> on the three writers and for \<open>writeVarString\<close> on the StaticWriter
  and the SizeWriter; the BufferWriter's \<open>writeVarString('')\<close> renders no buffer.
\<close>

theorem empty_varstring_render:
  "BufferWriter_render mem (BufferWriter_writeVarString [] enc BufferWriter_new)
     = Inl (EncodingError 1 ''Out of bounds write'') \<and>
   BufferWriter_render mem (BufferWriter_writeVarBytes [] BufferWriter_new)
     = Inr ([0], BufferWriter_new) \<and>
   StaticWriter_writeVarString [] enc (StaticWriter_init_buffer [x] StaticWriter_new)
     = Inr \<lparr>offset = 1, data = [0]\<rparr> \<and>
   StaticWriter_writeVarBytes [] (StaticWriter_init_buffer [x] StaticWriter_new)
     = Inr \<lparr>offset = 1, data = [0]\<rparr> \<and>
   StaticWriter_render \<lparr>offset = 1, data = [0]\<rparr> = Inr ([0], StaticWriter_new) \<and>
   SizeWriter_render (SizeWriter_writeVarString [] enc SizeWriter_new) = (1, SizeWriter_new) \<and>
   SizeWriter_render (SizeWriter_writeVarBytes [] SizeWriter_new) = (1, SizeWriter_new)"
  by (simp add: SizeWriter_render_def SizeWriter_writeVarString_def SizeWriter_new_def advance_def
      BufferWriter_render_def BufferWriter_writeVarString_def BufferWriter_new_def allocUnsafe_def
      writeVarint_def put_def BufferWriter_writeVarBytes_def push_def sizeVarint_def js_and_def
      BufferWriter_destroy_def StaticWriter_writeVarString_def StaticWriter_init_buffer_def
      StaticWriter_new_def StaticWriter_writeVarint_def store_def StaticWriter_writeVarBytes_def
      StaticWriter_writeBytes_def StaticWriter_render_def StaticWriter_destroy_def
      SizeWriter_writeVarBytes_def SizeWriter_writeBytes_def SizeWriter_writeVarint_def
      SizeWriter_destroy_def)

subsection \<open>Varint scheme B at the top of the safe range\<close>

text \<open>
  C2. Scheme B should round-trip every value up to \<open>2^53 - 1\<close>, and 300 does. At
  \<open>2^53 - 1\<close> itself
  \<open>writeVarint2\<close> writes eight bytes, as \<open>sizeVarint2\<close> says, and \<open>readVarint2\<close>
  rejects them at the last byte: its guard \<open>num <= 0x3fffffffffff - (ch & 0x7f)\<close>
  subtracts the low bits from the bound on the high part.
\<close>

theorem readVarint2_rejects_max_safe:
  "writeVarint2 (replicate 8 0) 9007199254740991 0
     = ([0x8e, 0xfe, 0xfe, 0xfe, 0xfe, 0xfe, 0xfe, 0x7f], Inr 8)
   \<and> sizeVarint2 9007199254740991 = 8
   \<and> readVarint2 (fst (writeVarint2 (replicate 8 0) 9007199254740991 0)) 0
     = Inl (EncodingError 8 ''Number exceeds 2^53-1'')
   \<and> readVarint2 (fst (writeVarint2 (replicate 2 0) 300 0)) 0 = Inr \<lparr>size = 2, value = 300\<rparr>"
proof -
  have e: "readVarint2 (fst (writeVarint2 (replicate 2 0) 300 0)) 0 = Inr \<lparr>size = 2, value = 300\<rparr>"
    by code_simp
  have w: "writeVarint2 (replicate 8 0) 9007199254740991 0
      = ([0x8e, 0xfe, 0xfe, 0xfe, 0xfe, 0xfe, 0xfe, 0x7f], Inr 8)"
    by code_simp
  have s: "sizeVarint2 9007199254740991 = 8"
    by code_simp
  have r: "readVarint2 [0x8e, 0xfe, 0xfe, 0xfe, 0xfe, 0xfe, 0xfe, 0x7f] 0
      = Inl (EncodingError 8 ''Number exceeds 2^53-1'')"
    by code_simp
  show ?thesis by (simp only: w s r e fst_conv simp_thms)
qed

subsection \<open>Finalizing a StaticWriter\<close>

lemma slice_prefix: "0 \<le> n \<Longrightarrow> n \<le> int (length d) \<Longrightarrow> buf_slice d 0 n = take (nat n) d"
  by (simp add: buf_slice_def clamp_index_def Let_def)

lemma slice_negative:
  "n < 0 \<Longrightarrow> buf_slice d 0 n = take (nat (int (length d) + n)) d"
  by (simp add: buf_slice_def clamp_index_def Let_def)

text \<open>
  C6, as stated: \<open>slice\<close> succeeds whenever the offset is at most the length of the
  buffer and returns the first \<open>offset\<close> bytes. \<open>seek(-1)\<close> on a fresh writer over three
  bytes leaves the offset at -1, which is at most 3; \<open>slice\<close> succeeds and returns two
  bytes, since \<open>data.slice(0, -1)\<close> counts from the end of the buffer.
\<close>

theorem slice_at_negative_offset:
  "offset (StaticWriter_seek (- 1) (StaticWriter_init_buffer [1, 2, 3] StaticWriter_new)) = - 1
   \<and> StaticWriter_slice (StaticWriter_seek (- 1) (StaticWriter_init_buffer [1, 2, 3] StaticWriter_new))
       = Inr ([1, 2], StaticWriter_new)"
  by (simp add: StaticWriter_seek_def StaticWriter_init_buffer_def StaticWriter_new_def
      StaticWriter_slice_def StaticWriter_destroy_def buf_slice_def clamp_index_def)

text \<open>
  C6, amended. \<open>render\<close> throws \<open>Out of bounds write\<close> whenever the offset differs from
  the length of the buffer. \<open>slice\<close> on the same state succeeds whenever the offset is at
  most that length and returns \<open>data.slice(0, offset)\<close>: the first \<open>offset\<close> bytes of the
  buffer when the offset is not negative, and the buffer without its last \<open>-offset\<close>
  bytes, that is its first \<open>max(0, length + offset)\<close> bytes, when the offset is negative.
\<close>

theorem StaticWriter_finalization:
  "(offset w \<noteq> int (length (data w)) \<longrightarrow>
      StaticWriter_render w = Inl (EncodingError (offset w) ''Out of bounds write''))
   \<and> (offset w \<le> int (length (data w)) \<longrightarrow>
      StaticWriter_slice w = Inr (buf_slice (data w) 0 (offset w), StaticWriter_destroy w)
      \<and> (0 \<le> offset w \<longrightarrow> buf_slice (data w) 0 (offset w) = take (nat (offset w)) (data w))
      \<and> (offset w < 0 \<longrightarrow>
            buf_slice (data w) 0 (offset w) = take (nat (int (length (data w)) + offset w)) (data w)))"
  by (simp add: StaticWriter_render_def StaticWriter_slice_def slice_prefix slice_negative)

theorem StaticWriter_finalization_witness:
  "StaticWriter_render \<lparr>offset = 2, data = [1, 2, 3]\<rparr> = Inl (EncodingError 2 ''Out of bounds write'')
   \<and> StaticWriter_slice \<lparr>offset = 2, data = [1, 2, 3]\<rparr> = Inr ([1, 2], StaticWriter_new)
   \<and> StaticWriter_slice \<lparr>offset = - 2, data = [1, 2, 3]\<rparr> = Inr ([1], StaticWriter_new)"
  using StaticWriter_finalization [of "\<lparr>offset = 2, data = [1, 2, 3]\<rparr>"]
        StaticWriter_finalization [of "\<lparr>offset = - 2, data = [1, 2, 3]\<rparr>"]
  by (simp add: StaticWriter_destroy_def StaticWriter_new_def)

subsection \<open>The offset of a StaticWriter and its capacity\<close>

text \<open>
  C9, as stated: after any operations the offset of a StaticWriter never exceeds the
  capacity of its buffer. \<open>seek(5)\<close> on a writer over two bytes leaves the offset at 5.
\<close>

theorem seek_exceeds_capacity:
  "offset (StaticWriter_seek 5 (StaticWriter_init_buffer [0, 0] StaticWriter_new))
     > int (length (data (StaticWriter_seek 5 (StaticWriter_init_buffer [0, 0] StaticWriter_new))))"
  by (simp add: StaticWriter_seek_def StaticWriter_init_buffer_def StaticWriter_new_def)

text \<open>
  C9, amended. \<open>seek\<close> adds its argument to the offset and checks nothing, so the offset
  can exceed the capacity. \<open>fill\<close> keeps an offset that is within the capacity within
  it, since a fill beyond the buffer throws. An offset beyond the capacity is caught
  when the writer is finalized: \<open>render\<close> and \<open>slice\<close> both throw
  \<open>Out of bounds write\<close>.
\<close>

theorem StaticWriter_offset_checked_at_finalization:
  "offset (StaticWriter_seek n w) = offset w + n \<and> data (StaticWriter_seek n w) = data w
   \<and> (offset w \<le> int (length (data w)) \<and> StaticWriter_fill v sz w = Inr w'
        \<longrightarrow> offset w' \<le> int (length (data w')))
   \<and> (offset w > int (length (data w)) \<longrightarrow>
        StaticWriter_render w = Inl (EncodingError (offset w) ''Out of bounds write'') \<and>
        StaticWriter_slice w = Inl (EncodingError (offset w) ''Out of bounds write''))"
  by (auto simp add: StaticWriter_seek_def StaticWriter_fill_def fill_def StaticWriter_render_def
      StaticWriter_slice_def split: if_splits sum.splits)

theorem StaticWriter_offset_checked_at_finalization_witness:
  "offset (StaticWriter_seek 5 \<lparr>offset = 0, data = [0, 0]\<rparr>) = 5
   \<and> StaticWriter_fill 7 2 \<lparr>offset = 0, data = [0, 0]\<rparr> = Inr \<lparr>offset = 2, data = [7, 7]\<rparr>
   \<and> StaticWriter_render \<lparr>offset = 5, data = [0, 0]\<rparr> = Inl (EncodingError 5 ''Out of bounds write'')
   \<and> StaticWriter_slice \<lparr>offset = 5, data = [0, 0]\<rparr> = Inl (EncodingError 5 ''Out of bounds write'')"
  using StaticWriter_offset_checked_at_finalization
          [of 5 "\<lparr>offset = 0, data = [0, 0]\<rparr>" 7 2 "\<lparr>offset = 2, data = [7, 7]\<rparr>"]
        StaticWriter_offset_checked_at_finalization
          [of 0 "\<lparr>offset = 5, data = [0, 0]\<rparr>" 7 2 "\<lparr>offset = 2, data = [7, 7]\<rparr>"]
  by (simp add: StaticWriter_fill_def fill_def numeral_2_eq_2)

subsection \<open>Writers from the pool\<close>

lemma clamp_index_mono: "0 \<le> a \<Longrightarrow> a \<le> b \<Longrightarrow> clamp_index c a \<le> clamp_index c b"
  unfolding clamp_index_def by (auto simp add: nat_le_iff)

lemma view_slice_0: "0 \<le> n \<Longrightarrow>
  view_slice p 0 n = \<lparr>slab = slab p, first = first p, count = clamp_index (count p) n\<rparr>"
  by (simp add: view_slice_def clamp_index_def Let_def)

text \<open>
  C7, as stated: two writers from the pool whose sizes sum below the pool capacity
  address ranges of the slab that do not overlap. In a fresh process \<open>pool(10)\<close> and
  then \<open>pool(20)\<close> both address byte 0 of slab 0.
\<close>

theorem pool_writers_overlap:
  "StaticWriter_pool \<lparr>next_slab = 0, POOL = None\<rparr> 10
     = Inr (\<lparr>next_slab = 1, POOL = Some \<lparr>slab = 0, first = 0, count = 102400\<rparr>\<rparr>,
            \<lparr>offset = 0, data = \<lparr>slab = 0, first = 0, count = 10\<rparr>\<rparr>)
   \<and> StaticWriter_pool \<lparr>next_slab = 1, POOL = Some \<lparr>slab = 0, first = 0, count = 102400\<rparr>\<rparr> 20
     = Inr (\<lparr>next_slab = 1, POOL = Some \<lparr>slab = 0, first = 0, count = 102400\<rparr>\<rparr>,
            \<lparr>offset = 0, data = \<lparr>slab = 0, first = 0, count = 20\<rparr>\<rparr>)
   \<and> (0, 0) \<in> addressable \<lparr>slab = 0, first = 0, count = 10\<rparr>
               \<inter> addressable \<lparr>slab = 0, first = 0, count = 20\<rparr>"
  by (simp add: StaticWriter_pool_def POOLSIZE_def alloc_def view_slice_def clamp_index_def
      addressable_def)

lemma pool_step:
  assumes "heap_ok h" "StaticWriter_pool h s = Inr (h1, w)"
  shows "heap_ok h1" "next_slab h \<le> next_slab h1"
    "\<And>p. POOL h = Some p \<Longrightarrow> POOL h1 = Some p"
    "\<And>p. POOL h1 = Some p \<Longrightarrow> POOL h = Some p \<or> next_slab h \<le> slab p"
    "s \<le> POOLSIZE \<Longrightarrow> \<exists>p. POOL h1 = Some p \<and> data w = view_slice p 0 s"
    "POOLSIZE < s \<Longrightarrow> POOL h1 = POOL h \<and> next_slab h1 = next_slab h + 1
        \<and> data w = \<lparr>slab = next_slab h, first = 0, count = nat s\<rparr>"
  using assms
  by (auto simp add: heap_ok_def StaticWriter_pool_def alloc_def POOLSIZE_def
      split: option.splits if_splits)

lemma pool_calls_inv:
  "heap_ok h \<Longrightarrow> pool_calls h ss = Inr (h', ws) \<Longrightarrow>
     length ws = length ss \<and> heap_ok h' \<and> next_slab h \<le> next_slab h'
     \<and> (\<forall>p. POOL h = Some p \<longrightarrow> POOL h' = Some p)
     \<and> (\<forall>p. POOL h' = Some p \<longrightarrow> POOL h = Some p \<or> next_slab h \<le> slab p)
     \<and> (\<forall>k<length ss. ss ! k \<le> POOLSIZE \<longrightarrow>
           (\<exists>p. POOL h' = Some p \<and> data (ws ! k) = view_slice p 0 (ss ! k)))
     \<and> (\<forall>k<length ss. POOLSIZE < ss ! k \<longrightarrow>
           first (data (ws ! k)) = 0 \<and> count (data (ws ! k)) = nat (ss ! k)
           \<and> next_slab h \<le> slab (data (ws ! k)) \<and> slab (data (ws ! k)) < next_slab h'
           \<and> (\<forall>p. POOL h' = Some p \<longrightarrow> slab p \<noteq> slab (data (ws ! k))))
     \<and> (\<forall>k l. k < l \<and> l < length ss \<and> POOLSIZE < ss ! k \<and> POOLSIZE < ss ! l \<longrightarrow>
           slab (data (ws ! k)) \<noteq> slab (data (ws ! l)))"
proof (induction ss arbitrary: h h' ws)
  case Nil
  then show ?case by simp
next
  case (Cons s ss)
  from Cons.prems(2) obtain h1 w ws'
    where st: "StaticWriter_pool h s = Inr (h1, w)"
      and rest: "pool_calls h1 ss = Inr (h', ws')"
      and ws: "ws = w # ws'"
    by (auto split: sum.splits)
  note S = pool_step [OF Cons.prems(1) st]
  note IH = Cons.IH [OF S(1) rest]
  have ok: "POOL h = Some p \<Longrightarrow> slab p < next_slab h" for p
    using Cons.prems(1) by (simp add: heap_ok_def)
  have c1: "length ws = length (s # ss)" using IH ws by simp
  have c2: "heap_ok h'" using IH by simp
  have c3: "next_slab h \<le> next_slab h'" using IH S(2) by linarith
  have c4: "\<forall>p. POOL h = Some p \<longrightarrow> POOL h' = Some p" using IH S(3) by blast
  have c5: "\<forall>p. POOL h' = Some p \<longrightarrow> POOL h = Some p \<or> next_slab h \<le> slab p"
  proof (intro allI impI)
    fix p assume "POOL h' = Some p"
    with IH have "POOL h1 = Some p \<or> next_slab h1 \<le> slab p" by blast
    then show "POOL h = Some p \<or> next_slab h \<le> slab p"
      using S(4) [of p] S(2) by auto
  qed
  have c6: "\<forall>k<length (s # ss). (s # ss) ! k \<le> POOLSIZE \<longrightarrow>
           (\<exists>p. POOL h' = Some p \<and> data (ws ! k) = view_slice p 0 ((s # ss) ! k))"
  proof (intro allI impI)
    fix k assume k: "k < length (s # ss)" and sm: "(s # ss) ! k \<le> POOLSIZE"
    show "\<exists>p. POOL h' = Some p \<and> data (ws ! k) = view_slice p 0 ((s # ss) ! k)"
    proof (cases k)
      case 0
      with sm have "s \<le> POOLSIZE" by simp
      from S(5) [OF this] obtain p where "POOL h1 = Some p" "data w = view_slice p 0 s" by blast
      with IH have "POOL h' = Some p \<and> data w = view_slice p 0 s" by blast
      then show ?thesis using 0 ws by simp
    next
      case (Suc k')
      with k sm have "k' < length ss" "ss ! k' \<le> POOLSIZE" by simp_all
      with IH have "\<exists>p. POOL h' = Some p \<and> data (ws' ! k') = view_slice p 0 (ss ! k')" by blast
      then show ?thesis using Suc ws by simp
    qed
  qed
  have c7: "\<forall>k<length (s # ss). POOLSIZE < (s # ss) ! k \<longrightarrow>
           first (data (ws ! k)) = 0 \<and> count (data (ws ! k)) = nat ((s # ss) ! k)
           \<and> next_slab h \<le> slab (data (ws ! k)) \<and> slab (data (ws ! k)) < next_slab h'
           \<and> (\<forall>p. POOL h' = Some p \<longrightarrow> slab p \<noteq> slab (data (ws ! k)))"
  proof (intro allI impI)
    fix k assume k: "k < length (s # ss)" and big: "POOLSIZE < (s # ss) ! k"
    show "first (data (ws ! k)) = 0 \<and> count (data (ws ! k)) = nat ((s # ss) ! k)
           \<and> next_slab h \<le> slab (data (ws ! k)) \<and> slab (data (ws ! k)) < next_slab h'
           \<and> (\<forall>p. POOL h' = Some p \<longrightarrow> slab p \<noteq> slab (data (ws ! k)))"
    proof (cases k)
      case 0
      with big have "POOLSIZE < s" by simp
      note B = S(6) [OF this]
      have d: "data w = \<lparr>slab = next_slab h, first = 0, count = nat s\<rparr>" using B by simp
      have n: "next_slab h < next_slab h'" using B IH by linarith
      have "slab p \<noteq> next_slab h" if "POOL h' = Some p" for p
      proof -
        from that IH have "POOL h1 = Some p \<or> next_slab h1 \<le> slab p" by blast
        then show ?thesis
        proof
          assume "POOL h1 = Some p"
          then have "POOL h = Some p" using B by simp
          from ok [OF this] show ?thesis by simp
        next
          assume "next_slab h1 \<le> slab p"
          then show ?thesis using B by simp
        qed
      qed
      then show ?thesis using 0 ws d n by simp
    next
      case (Suc k')
      with k big have "k' < length ss" "POOLSIZE < ss ! k'" by simp_all
      with IH have "first (data (ws' ! k')) = 0 \<and> count (data (ws' ! k')) = nat (ss ! k')
           \<and> next_slab h1 \<le> slab (data (ws' ! k')) \<and> slab (data (ws' ! k')) < next_slab h'
           \<and> (\<forall>p. POOL h' = Some p \<longrightarrow> slab p \<noteq> slab (data (ws' ! k')))" by blast
      then show ?thesis using Suc ws S(2) by simp
    qed
  qed
  have c8: "\<forall>k l. k < l \<and> l < length (s # ss) \<and> POOLSIZE < (s # ss) ! k \<and> POOLSIZE < (s # ss) ! l \<longrightarrow>
           slab (data (ws ! k)) \<noteq> slab (data (ws ! l))"
  proof (intro allI impI)
    fix k l assume a: "k < l \<and> l < length (s # ss) \<and> POOLSIZE < (s # ss) ! k \<and> POOLSIZE < (s # ss) ! l"
    then obtain l' where l: "l = Suc l'" by (cases l) auto
    with a have l': "l' < length ss" "POOLSIZE < ss ! l'" by simp_all
    with IH have lb: "next_slab h1 \<le> slab (data (ws' ! l'))" by blast
    show "slab (data (ws ! k)) \<noteq> slab (data (ws ! l))"
    proof (cases k)
      case 0
      with a have "POOLSIZE < s" by simp
      note B = S(6) [OF this]
      show ?thesis using 0 l ws B lb by simp
    next
      case (Suc k')
      with a l have "k' < l' \<and> l' < length ss \<and> POOLSIZE < ss ! k' \<and> POOLSIZE < ss ! l'" by simp
      with IH have "slab (data (ws' ! k')) \<noteq> slab (data (ws' ! l'))" by blast
      then show ?thesis using Suc l ws by simp
    qed
  qed
  show ?case using c1 c2 c3 c4 c5 c6 c7 c8 by blast
qed

text \<open>
  C7, amended. Take any run of successful calls to \<open>pool\<close> from the start of the module,
  where \<open>POOL\<close> is null, and any two of the writers returned. If both sizes are between
  0 and the pool capacity, the two writers address the same slab from its byte 0, each
  for its own size: the bytes addressable through the smaller one are addressable
  through the larger one, and the two ranges overlap as soon as both sizes are positive.
  If one of the two sizes is above the pool capacity, that writer has a buffer of its
  own, and no byte is addressable through both writers.
\<close>

theorem pool_writers_share_slab:
  assumes "pool_calls \<lparr>next_slab = n, POOL = None\<rparr> ss = Inr (h', ws)" "i < j" "j < length ss"
  shows "(0 \<le> ss ! i \<and> ss ! i \<le> POOLSIZE \<and> 0 \<le> ss ! j \<and> ss ! j \<le> POOLSIZE \<longrightarrow>
            slab (data (ws ! i)) = slab (data (ws ! j))
            \<and> first (data (ws ! i)) = 0 \<and> first (data (ws ! j)) = 0
            \<and> count (data (ws ! i)) = nat (ss ! i) \<and> count (data (ws ! j)) = nat (ss ! j)
            \<and> (ss ! i \<le> ss ! j \<longrightarrow> addressable (data (ws ! i)) \<subseteq> addressable (data (ws ! j)))
            \<and> (ss ! j \<le> ss ! i \<longrightarrow> addressable (data (ws ! j)) \<subseteq> addressable (data (ws ! i)))
            \<and> (0 < ss ! i \<and> 0 < ss ! j \<longrightarrow>
                  addressable (data (ws ! i)) \<inter> addressable (data (ws ! j)) \<noteq> {}))
    \<and> (POOLSIZE < ss ! i \<or> POOLSIZE < ss ! j \<longrightarrow>
            addressable (data (ws ! i)) \<inter> addressable (data (ws ! j)) = {})"
proof -
  have ok: "heap_ok \<lparr>next_slab = n, POOL = None\<rparr>" by (simp add: heap_ok_def)
  note I = pool_calls_inv [OF ok assms(1)]
  have i: "i < length ss" using assms(2,3) by simp
  have small: "data (ws ! k) = \<lparr>slab = slab p, first = 0, count = nat (ss ! k)\<rparr>"
    if "k < length ss" "0 \<le> ss ! k" "ss ! k \<le> POOLSIZE" "POOL h' = Some p" for k p
  proof -
    from I that obtain q where q: "POOL h' = Some q" "data (ws ! k) = view_slice q 0 (ss ! k)"
      by blast
    with that have qp: "q = p" by simp
    have "heap_ok h'" using I by simp
    with that(4) have p: "first p = 0" "int (count p) = POOLSIZE" by (simp_all add: heap_ok_def)
    have "clamp_index (count p) (ss ! k) = nat (ss ! k)"
      using that(2,3) p(2) by (simp add: clamp_index_def)
    then show ?thesis using q(2) qp p(1) that(2) by (simp add: view_slice_0)
  qed
  have A: "slab (data (ws ! i)) = slab (data (ws ! j))
            \<and> first (data (ws ! i)) = 0 \<and> first (data (ws ! j)) = 0
            \<and> count (data (ws ! i)) = nat (ss ! i) \<and> count (data (ws ! j)) = nat (ss ! j)
            \<and> (ss ! i \<le> ss ! j \<longrightarrow> addressable (data (ws ! i)) \<subseteq> addressable (data (ws ! j)))
            \<and> (ss ! j \<le> ss ! i \<longrightarrow> addressable (data (ws ! j)) \<subseteq> addressable (data (ws ! i)))
            \<and> (0 < ss ! i \<and> 0 < ss ! j \<longrightarrow>
                  addressable (data (ws ! i)) \<inter> addressable (data (ws ! j)) \<noteq> {})"
    if h: "0 \<le> ss ! i" "ss ! i \<le> POOLSIZE" "0 \<le> ss ! j" "ss ! j \<le> POOLSIZE"
  proof -
    from I i h(2) obtain p where p: "POOL h' = Some p" by blast
    note di = small [OF i h(1,2) p]
    note dj = small [OF assms(3) h(3,4) p]
    have ne: "0 < ss ! i \<Longrightarrow> 0 < ss ! j \<Longrightarrow>
        addressable (data (ws ! i)) \<inter> addressable (data (ws ! j)) \<noteq> {}"
    proof -
      assume "0 < ss ! i" "0 < ss ! j"
      then have "(slab p, 0) \<in> addressable (data (ws ! i)) \<inter> addressable (data (ws ! j))"
        unfolding di dj addressable_def by simp
      then show ?thesis by blast
    qed
    have sub1: "ss ! i \<le> ss ! j \<Longrightarrow> addressable (data (ws ! i)) \<subseteq> addressable (data (ws ! j))"
      unfolding di dj addressable_def by auto
    have sub2: "ss ! j \<le> ss ! i \<Longrightarrow> addressable (data (ws ! j)) \<subseteq> addressable (data (ws ! i))"
      unfolding di dj addressable_def by auto
    show ?thesis using ne sub1 sub2 by (simp add: di dj)
  qed
  have diff: "slab (data (ws ! i)) \<noteq> slab (data (ws ! j))" if "POOLSIZE < ss ! i \<or> POOLSIZE < ss ! j"
  proof (cases "POOLSIZE < ss ! i")
    case bi: True
    show ?thesis
    proof (cases "POOLSIZE < ss ! j")
      case True
      with I bi assms(2,3) show ?thesis by blast
    next
      case False
      then have "ss ! j \<le> POOLSIZE" by simp
      with I assms(3) obtain p where "POOL h' = Some p" "data (ws ! j) = view_slice p 0 (ss ! j)"
        by blast
      moreover from I i bi have "\<forall>p. POOL h' = Some p \<longrightarrow> slab p \<noteq> slab (data (ws ! i))" by blast
      ultimately show ?thesis by (auto simp add: view_slice_def Let_def)
    qed
  next
    case False
    with that have bj: "POOLSIZE < ss ! j" and si: "ss ! i \<le> POOLSIZE" by simp_all
    from I i si obtain p where "POOL h' = Some p" "data (ws ! i) = view_slice p 0 (ss ! i)"
      by blast
    moreover from I assms(3) bj have "\<forall>p. POOL h' = Some p \<longrightarrow> slab p \<noteq> slab (data (ws ! j))" by blast
    ultimately show ?thesis by (auto simp add: view_slice_def Let_def)
  qed
  have B: "addressable (data (ws ! i)) \<inter> addressable (data (ws ! j)) = {}"
    if "POOLSIZE < ss ! i \<or> POOLSIZE < ss ! j"
    using diff [OF that] unfolding addressable_def by auto
  show ?thesis using A B by blast
qed

theorem pool_writers_share_slab_witness:
  "addressable \<lparr>slab = 0, first = 0, count = 10\<rparr> \<subseteq> addressable \<lparr>slab = 0, first = 0, count = 20\<rparr>
   \<and> addressable \<lparr>slab = 0, first = 0, count = 10\<rparr>
       \<inter> addressable \<lparr>slab = 0, first = 0, count = 20\<rparr> \<noteq> {}
   \<and> addressable \<lparr>slab = 0, first = 0, count = 10\<rparr>
       \<inter> addressable \<lparr>slab = 1, first = 0, count = 200000\<rparr> = {}"
proof -
  let ?p = "\<lparr>slab = 0, first = 0, count = 102400\<rparr>"
  let ?w1 = "\<lparr>offset = 0, data = \<lparr>slab = 0, first = 0, count = 10\<rparr>\<rparr>"
  let ?w2 = "\<lparr>offset = 0, data = \<lparr>slab = 1, first = 0, count = 200000\<rparr>\<rparr>"
  let ?w3 = "\<lparr>offset = 0, data = \<lparr>slab = 0, first = 0, count = 20\<rparr>\<rparr>"
  have r: "pool_calls \<lparr>next_slab = 0, POOL = None\<rparr> [10, 200000, 20]
             = Inr (\<lparr>next_slab = 2, POOL = Some ?p\<rparr>, [?w1, ?w2, ?w3])"
    by (simp add: StaticWriter_pool_def POOLSIZE_def alloc_def view_slice_def clamp_index_def
        toUint32_def)
  from pool_writers_share_slab [OF r, of 0 2] pool_writers_share_slab [OF r, of 0 1]
  show ?thesis by (simp add: POOLSIZE_def)
qed

subsection \<open>Checksums\<close>

lemma copy4:
  assumes "0 \<le> off" "off + 4 \<le> int (length d)" "4 \<le> length src"
  shows "copy src d off 0 4 = Inr (take (nat off) d @ take 4 src @ drop (nat off + 4) d, 4)"
proof -
  have "min (min (nat (4 - 0)) (length d - nat off)) (length src - nat 0) = 4"
    using assms by simp
  then show ?thesis using assms by (simp add: copy_def)
qed

lemma replay_append:
  "replay (xs @ ys) d off
     = (case replay xs d off of Inl e \<Rightarrow> Inl e | Inr (d', off') \<Rightarrow> replay ys d' off')"
  by (induction xs arbitrary: d off) (auto split: sum.splits)

text \<open>
  C8, as stated: for any hash function and any writer state the operation places four
  bytes of the hash and advances the offset by four. With a hash of two bytes, a
  StaticWriter over four bytes receives two bytes only, and a BufferWriter replays the
  operation to position 2 of its four bytes, so that \<open>render\<close> throws. With a hash of
  four bytes and a StaticWriter over two bytes, two bytes are placed and the offset is 4.
\<close>

theorem checksum_short_hash:
  "StaticWriter_writeChecksum (\<lambda>b. [1, 2]) \<lparr>offset = 0, data = [0, 0, 0, 0]\<rparr>
     = Inr \<lparr>offset = 4, data = [1, 2, 0, 0]\<rparr>
   \<and> BufferWriter_render (\<lambda>i. 0) (BufferWriter_writeChecksum (\<lambda>b. [1, 2]) BufferWriter_new)
     = Inl (EncodingError 2 ''Out of bounds write'')
   \<and> StaticWriter_writeChecksum (\<lambda>b. [1, 2, 3, 4]) \<lparr>offset = 0, data = [0, 0]\<rparr>
     = Inr \<lparr>offset = 4, data = [1, 2]\<rparr>"
  by (simp add: StaticWriter_writeChecksum_def BufferWriter_render_def BufferWriter_writeChecksum_def
      BufferWriter_new_def push_def allocUnsafe_def copy_def buf_slice_def clamp_index_def)

text \<open>
  C8, amended. Let the hash function return at least four bytes on the bytes before the
  current position \<open>off\<close>, and let the position be non-negative with room for four bytes,
  \<open>off + 4 \<le> data.length\<close>. Then \<open>StaticWriter.writeChecksum\<close> puts at \<open>[off, off + 4)\<close>
  the first four bytes of the hash of \<open>data.slice(0, off)\<close>, the bytes of the buffer
  before the position, leaves those bytes as they are, and advances the offset by four.
  \<open>BufferWriter.writeChecksum\<close> adds four to the offset and queues the operation; in
  \<open>render\<close>, once the replay of the earlier operations has reached position \<open>off\<close> of the
  buffer \<open>data\<close>, the replay of the checksum puts the same four bytes at the same place
  and advances the position by four, and when the checksum ends the buffer \<open>render\<close>
  returns the bytes before it followed by the four bytes of the hash.
\<close>

theorem checksum_placement:
  assumes "0 \<le> off" "off + 4 \<le> int (length d)" "4 \<le> length (hash (buf_slice d 0 off))"
  shows "StaticWriter_writeChecksum hash \<lparr>offset = off, data = d\<rparr>
           = Inr \<lparr>offset = off + 4,
                  data = take (nat off) d @ take 4 (hash (buf_slice d 0 off)) @ drop (nat off + 4) d\<rparr>
    \<and> offset (BufferWriter_writeChecksum hash w) = offset w + 4
    \<and> ops (BufferWriter_writeChecksum hash w) = ops w @ [CHECKSUM hash]
    \<and> (allocUnsafe mem (offset w + 4) = Inr d0 \<and> replay (ops w) d0 0 = Inr (d, off) \<longrightarrow>
          replay (ops (BufferWriter_writeChecksum hash w)) d0 0
            = Inr (take (nat off) d @ take 4 (hash (buf_slice d 0 off)) @ drop (nat off + 4) d, off + 4)
          \<and> (off + 4 = int (length d) \<longrightarrow>
               BufferWriter_render mem (BufferWriter_writeChecksum hash w)
                 = Inr (take (nat off) d @ take 4 (hash (buf_slice d 0 off)), BufferWriter_new)))
    \<and> buf_slice (take (nat off) d @ take 4 (hash (buf_slice d 0 off)) @ drop (nat off + 4) d) off (off + 4)
           = take 4 (hash (buf_slice d 0 off))
    \<and> buf_slice (take (nat off) d @ take 4 (hash (buf_slice d 0 off)) @ drop (nat off + 4) d) 0 off
           = buf_slice d 0 off
    \<and> buf_slice d 0 off = take (nat off) d"
proof -
  let ?h = "hash (buf_slice d 0 off)"
  let ?d = "take (nat off) d @ take 4 ?h @ drop (nat off + 4) d"
  have c: "copy ?h d off 0 4 = Inr (?d, 4)"
    using assms by (rule copy4)
  have l: "nat off + 4 \<le> length d" using assms(1,2) by linarith
  have s0: "buf_slice d 0 off = take (nat off) d"
    using assms(1,2) by (simp add: slice_prefix)
  have s1: "buf_slice ?d off (off + 4) = take 4 ?h"
    using assms l by (simp add: buf_slice_def clamp_index_def Let_def nat_add_distrib)
  have s2: "buf_slice ?d 0 off = buf_slice d 0 off"
    unfolding s0 using assms l by (simp add: buf_slice_def clamp_index_def Let_def)
  have sw: "StaticWriter_writeChecksum hash \<lparr>offset = off, data = d\<rparr> = Inr \<lparr>offset = off + 4, data = ?d\<rparr>"
    using c by (simp add: StaticWriter_writeChecksum_def)
  have bo: "offset (BufferWriter_writeChecksum hash w) = offset w + 4"
    by (simp add: BufferWriter_writeChecksum_def push_def)
  have bp: "ops (BufferWriter_writeChecksum hash w) = ops w @ [CHECKSUM hash]"
    by (simp add: BufferWriter_writeChecksum_def push_def)
  have rp: "replay (ops (BufferWriter_writeChecksum hash w)) d0 0 = Inr (?d, off + 4)"
    if "replay (ops w) d0 0 = Inr (d, off)"
    using that c by (simp add: bp replay_append)
  have len: "length ?d = length d" using assms l by simp
  have rn: "BufferWriter_render mem (BufferWriter_writeChecksum hash w)
              = Inr (take (nat off) d @ take 4 ?h, BufferWriter_new)"
    if a: "allocUnsafe mem (offset w + 4) = Inr d0" and r: "replay (ops w) d0 0 = Inr (d, off)"
      and e: "off + 4 = int (length d)"
  proof -
    let ?w = "BufferWriter_writeChecksum hash w"
    have a': "allocUnsafe mem (offset ?w) = Inr d0"
      using a by (simp only: bo)
    have dr: "?d = take (nat off) d @ take 4 ?h" using e assms(1) by simp
    have e': "\<not> off + 4 \<noteq> int (length ?d)" using e len by simp
    have n: "BufferWriter_destroy ?w = BufferWriter_new"
      by (simp add: BufferWriter_destroy_def BufferWriter_new_def)
    have "BufferWriter_render mem ?w
            = (if off + 4 \<noteq> int (length ?d) then Inl (EncodingError (off + 4) ''Out of bounds write'')
               else Inr (?d, BufferWriter_destroy ?w))"
      by (simp only: BufferWriter_render_def a' sum.case rp [OF r] prod.case)
    also have "\<dots> = Inr (?d, BufferWriter_new)"
      by (simp only: e' if_False n)
    finally show ?thesis by (simp only: dr)
  qed
  show ?thesis using sw bo bp rp rn s0 s1 s2 by simp
qed

theorem checksum_placement_witness:
  "StaticWriter_writeChecksum (\<lambda>b. b @ [9, 8, 7, 6, 5]) \<lparr>offset = 2, data = [1, 2, 0, 0, 0, 0]\<rparr>
     = Inr \<lparr>offset = 6, data = [1, 2, 1, 2, 9, 8]\<rparr>
   \<and> BufferWriter_render (\<lambda>i. 0)
       (BufferWriter_writeChecksum (\<lambda>b. b @ [9, 8, 7, 6, 5]) (BufferWriter_writeBytes [1, 2] BufferWriter_new))
     = Inr ([1, 2, 1, 2, 9, 8], BufferWriter_new)"
proof -
  let ?w = "BufferWriter_writeBytes [1, 2] BufferWriter_new"
  have w: "?w = \<lparr>offset = 2, ops = [BYTES [1, 2]]\<rparr>"
    by (simp add: BufferWriter_writeBytes_def BufferWriter_new_def push_def)
  have a: "allocUnsafe (\<lambda>i. 0) (offset ?w + 4) = Inr [0, 0, 0, 0, 0, 0]"
    unfolding w by (simp add: allocUnsafe_def upt_rec)
  have r: "replay (ops ?w) [0, 0, 0, 0, 0, 0] 0 = Inr ([1, 2, 0, 0, 0, 0], 2)"
    unfolding w by (simp add: copy_def)
  from checksum_placement [of 2 "[1, 2, 0, 0, 0, 0]" "\<lambda>b. b @ [9, 8, 7, 6, 5]" ?w "\<lambda>i. 0" "[0, 0, 0, 0, 0, 0]"]
    a r
  show ?thesis by (simp add: buf_slice_def clamp_index_def)
qed

subsection \<open>Bytes of integers in a buffer\<close>

lemma length_put [simp]: "length (put d i v) = length d"
  by (simp add: put_def)

lemma get_put: "get (put d i v) j =
   (if i = j \<and> 0 \<le> i \<and> i < int (length d) then Some (take_bit 8 v) else get d j)"
  by (auto simp add: get_def put_def nth_list_update uint_word_of_int_eq nat_eq_iff)

lemma js_shr_byte: "n + 8 \<le> 32 \<Longrightarrow> take_bit 8 (js_shr v n) = take_bit 8 (drop_bit n v)"
  unfolding js_shr_def
  by (rule bit_eqI) (auto simp add: bit_simps)

lemma toInt32_byte: "n + 8 \<le> 32 \<Longrightarrow> take_bit 8 (drop_bit n (toInt32 v)) = take_bit 8 (drop_bit n v)"
  unfolding toInt32_def
  by (rule bit_eqI) (auto simp add: bit_simps)

lemma js_and_byte: "take_bit 8 (js_and v 0xff) = take_bit 8 v"
proof -
  have m: "(0xff :: 32 word) = mask 8" by (simp add: mask_eq_exp_minus_1)
  show ?thesis unfolding js_and_def word_of_int_numeral m
    by (rule bit_eqI) (auto simp add: bit_simps)
qed

lemma js_sar_byte: "n + 8 \<le> 32 \<Longrightarrow> take_bit 8 (js_sar v n) = take_bit 8 (drop_bit n v)"
  unfolding js_sar_def
  by (rule bit_eqI) (auto simp add: bit_simps)

lemma take_bit_split: "take_bit (m + n) (v::int) = take_bit m v + push_bit m (take_bit n (drop_bit m v))"
  using zmod_zmult2_eq [of "2 ^ n" v "2 ^ m"]
  by (simp add: take_bit_eq_mod push_bit_eq_mult drop_bit_eq_div power_add algebra_simps)

lemma bytes4: "take_bit 8 (v::int) + take_bit 8 (drop_bit 8 v) * 0x100 + take_bit 8 (drop_bit 16 v) * 0x10000
   + take_bit 8 (drop_bit 24 v) * 0x1000000 = take_bit 32 v"
  using take_bit_split [of 8 8 v] take_bit_split [of 16 8 v] take_bit_split [of 24 8 v]
  by (simp add: push_bit_eq_mult)

lemma get_writeUInt32LE:
  assumes "0 \<le> off" "off + 4 \<le> int (length d)"
  shows "get (fst (writeUInt32LE d v off)) off = Some (take_bit 8 v)"
    and "get (fst (writeUInt32LE d v off)) (off + 1) = Some (take_bit 8 (drop_bit 8 v))"
    and "get (fst (writeUInt32LE d v off)) (off + 2) = Some (take_bit 8 (drop_bit 16 v))"
    and "get (fst (writeUInt32LE d v off)) (off + 3) = Some (take_bit 8 (drop_bit 24 v))"
  using assms by (simp_all add: writeUInt32LE_def get_put js_shr_byte)

lemma get_writeUInt32LE_other:
  "j < off \<or> off + 4 \<le> j \<Longrightarrow> get (fst (writeUInt32LE d v off)) j = get d j"
  by (auto simp add: writeUInt32LE_def get_put)

lemma length_writeUInt32LE [simp]: "length (fst (writeUInt32LE d v off)) = length d"
  by (simp add: writeUInt32LE_def)

lemma write64_nonneg:
  "0 \<le> num \<Longrightarrow> write64 dst num off False =
     writeUInt32LE (fst (writeUInt32LE dst (toInt32 num) off)) (toInt32 (num div 0x100000000)) (off + 4)"
  by (simp add: write64_def Let_def writeInt32LE_def split_beta writeUInt32LE_def)

lemma length_writeU64 [simp]: "0 \<le> v \<Longrightarrow> length (fst (writeU64 d v off)) = length d"
  by (simp add: writeU64_def write64_nonneg)

lemma snd_writeU64 [simp]: "0 \<le> v \<Longrightarrow> snd (writeU64 d v off) = off + 8"
  by (simp add: writeU64_def write64_nonneg writeUInt32LE_def)

lemma get_writeU64_other:
  "0 \<le> v \<Longrightarrow> j < off \<or> off + 8 \<le> j \<Longrightarrow> get (fst (writeU64 d v off)) j = get d j"
  by (auto simp add: writeU64_def write64_nonneg get_writeUInt32LE_other)

lemma get_writeUInt32LE_toInt32:
  assumes "0 \<le> off" "off + 4 \<le> int (length d)" "j < 4"
  shows "get (fst (writeUInt32LE d (toInt32 x) off)) (off + int j) = Some (byte_of x j)"
proof -
  have b0: "take_bit 8 (toInt32 x) = byte_of x 0"
    using toInt32_byte [of 0 x] by (simp add: byte_of_def)
  have b1: "take_bit 8 (drop_bit 8 (toInt32 x)) = byte_of x 1"
    using toInt32_byte [of 8 x] by (simp add: byte_of_def drop_bit_eq_div)
  have b2: "take_bit 8 (drop_bit 16 (toInt32 x)) = byte_of x 2"
    using toInt32_byte [of 16 x] by (simp add: byte_of_def drop_bit_eq_div)
  have b3: "take_bit 8 (drop_bit 24 (toInt32 x)) = byte_of x 3"
    using toInt32_byte [of 24 x] by (simp add: byte_of_def drop_bit_eq_div)
  have "j = 0 \<or> j = 1 \<or> j = 2 \<or> j = 3" using assms(3) by linarith
  then show ?thesis
    using get_writeUInt32LE [OF assms(1,2), of "toInt32 x"]
    unfolding b0 b1 b2 b3 by auto
qed

lemma byte_of_hi: "byte_of (x div 0x100000000) k = byte_of x (k + 4)"
proof -
  have "x div 0x100000000 div 256 ^ k = x div (256 ^ 4 * 256 ^ k)"
    by (simp add: zdiv_zmult2_eq)
  also have "\<dots> = x div 256 ^ (k + 4)" by (simp add: power_add mult.commute)
  finally show ?thesis by (simp add: byte_of_def)
qed

lemma get_writeU64:
  assumes "0 \<le> v" "0 \<le> off" "off + 8 \<le> int (length d)" "k < 8"
  shows "get (fst (writeU64 d v off)) (off + int k) = Some (byte_of v k)"
proof -
  let ?d1 = "fst (writeUInt32LE d (toInt32 v) off)"
  let ?d2 = "fst (writeUInt32LE ?d1 (toInt32 (v div 0x100000000)) (off + 4))"
  have w: "fst (writeU64 d v off) = ?d2"
    using assms(1) by (simp only: writeU64_def write64_nonneg)
  have r1: "0 \<le> off" "off + 4 \<le> int (length d)" using assms by simp_all
  have r2: "0 \<le> off + 4" "off + 4 + 4 \<le> int (length ?d1)" using assms by simp_all
  have lo: "get ?d2 (off + int j) = Some (byte_of v j)" if "j < 4" for j
  proof -
    have "get ?d2 (off + int j) = get ?d1 (off + int j)"
      using that by (simp add: get_writeUInt32LE_other)
    then show ?thesis
      using get_writeUInt32LE_toInt32 [OF r1 that] by simp
  qed
  have hi: "get ?d2 (off + 4 + int j) = Some (byte_of v (j + 4))" if "j < 4" for j
    using get_writeUInt32LE_toInt32 [OF r2 that] by (simp only: byte_of_hi)
  show ?thesis
  proof (cases "k < 4")
    case True
    then show ?thesis unfolding w by (rule lo)
  next
    case False
    then have "k - 4 < 4" and e: "k = (k - 4) + 4" using assms(4) by simp_all
    from hi [OF this(1)] have "get ?d2 (off + 4 + int (k - 4)) = Some (byte_of v (k - 4 + 4))" .
    moreover have "off + 4 + int (k - 4) = off + int k" using False by simp
    ultimately show ?thesis unfolding w using e by simp
  qed
qed

lemma int_div_less_iff:
  fixes a b c :: int assumes "0 < c" shows "(a div c < b) = (a < b * c)"
proof
  have m: "a div c * c + a mod c = a" by simp
  assume "a div c < b"
  then have "a div c + 1 \<le> b" by simp
  then have "(a div c + 1) * c \<le> b * c" using assms by (simp only: mult_right_mono less_imp_le)
  moreover have "a mod c < c" using assms by (rule pos_mod_bound)
  moreover have "(a div c + 1) * c = a div c * c + c" by (simp add: distrib_right)
  moreover note m
  ultimately show "a < b * c" by linarith
next
  have m: "a div c * c + a mod c = a" by simp
  assume h: "a < b * c"
  show "a div c < b"
  proof (rule ccontr)
    assume "\<not> a div c < b"
    then have "b \<le> a div c" by simp
    then have "b * c \<le> a div c * c" using assms by (simp only: mult_right_mono less_imp_le)
    moreover have "0 \<le> a mod c" using assms by (rule pos_mod_sign)
    then have "a div c * c \<le> a" using m by linarith
    ultimately show False using h by linarith
  qed
qed

lemma and_not_mask_zero: "((w :: 32 word) AND NOT (mask n) = 0) = (take_bit n w = w)"
  by (auto simp add: bit_eq_iff bit_simps)

lemma safe_mask:
  assumes "0 \<le> h" "h < 2 ^ 32" shows "(js_and h 0xffe00000 = 0) = (h < 2 ^ 21)"
proof -
  have m: "(0xffe00000 :: 32 word) = NOT (mask 21)" by (simp add: mask_eq_exp_minus_1 not_eq_complement)
  have "(js_and h 0xffe00000 = 0) = ((word_of_int h :: 32 word) AND 0xffe00000 = 0)"
    by (simp add: js_and_def signed_eq_0_iff)
  also have "\<dots> = (take_bit 21 (word_of_int h :: 32 word) = word_of_int h)"
    unfolding m by (rule and_not_mask_zero)
  also have "\<dots> = (uint (word_of_int h :: 32 word) < 2 ^ 21)"
    by (simp add: take_bit_eq_mask mask_eq_iff)
  also have "\<dots> = (h < 2 ^ 21)"
    using assms by (simp add: uint_word_of_int_eq take_bit_int_eq_self)
  finally show ?thesis .
qed

lemma readUInt32LE_bytes:
  assumes "\<And>j. j < 4 \<Longrightarrow> get d (off + int j) = Some (byte_of y j)"
  shows "readUInt32LE d off = Some (take_bit 32 y)"
proof -
  have g: "get d off = Some (take_bit 8 y)"
          "get d (off + 1) = Some (take_bit 8 (drop_bit 8 y))"
          "get d (off + 2) = Some (take_bit 8 (drop_bit 16 y))"
          "get d (off + 3) = Some (take_bit 8 (drop_bit 24 y))"
    using assms [of 0] assms [of 1] assms [of 2] assms [of 3]
    by (simp_all add: byte_of_def drop_bit_eq_div)
  show ?thesis
    unfolding readUInt32LE_def g by (simp only: prod.case option.case bytes4)
qed

lemma readU64_bytes:
  assumes "0 \<le> x" "x < 2 ^ 64"
    and g: "\<And>k. k < 8 \<Longrightarrow> get d (off + int k) = Some (byte_of x k)"
  shows "readU64 d off =
     (if x < 2 ^ 53 then Inr x else Inl (EncodingError off ''Number exceeds 2^53-1''))"
proof -
  have b: "0 \<le> x div 0x100000000" "x div 0x100000000 < 2 ^ 32" using assms(1,2) by simp_all
  then have tb: "take_bit 32 (x div 0x100000000) = x div 0x100000000"
    by (simp only: take_bit_int_eq_self)
  have "get d (off + 4 + int j) = Some (byte_of (x div 0x100000000) j)" if "j < 4" for j
  proof -
    have e: "off + 4 + int j = off + int (j + 4)" by simp
    from that have "j + 4 < 8" by simp
    then show ?thesis unfolding e byte_of_hi by (rule g)
  qed
  then have "readUInt32LE d (off + 4) = Some (take_bit 32 (x div 0x100000000))"
    by (rule readUInt32LE_bytes)
  then have hi: "readUInt32LE d (off + 4) = Some (x div 0x100000000)"
    by (simp only: tb)
  have "readUInt32LE d off = Some (take_bit 32 x)"
    using g by (intro readUInt32LE_bytes) simp
  then have lo: "readUInt32LE d off = Some (x mod 0x100000000)"
    by (simp add: take_bit_eq_mod)
  have "(x div 0x100000000 < 2 ^ 21) = (x < 2 ^ 53)"
    using int_div_less_iff [of "0x100000000" x "2 ^ 21"] by simp
  with safe_mask [OF b] have m: "(js_and (x div 0x100000000) 0xffe00000 = 0) = (x < 2 ^ 53)"
    by simp
  have j: "x div 0x100000000 * 0x100000000 + x mod 0x100000000 = x" by simp
  show ?thesis
    unfolding readU64_def hi lo prod.case option.case m j ..
qed

lemma length_le_bytes [simp]: "length (le_bytes n x) = n"
  by (simp add: le_bytes_def)

lemma get_append_le_bytes:
  assumes "k < n"
  shows "get (pre @ le_bytes n x @ post) (int (length pre) + int k) = Some (byte_of x k)"
proof -
  have "nat (int (length pre) + int k) = length pre + k" by simp
  then have "(pre @ le_bytes n x @ post) ! nat (int (length pre) + int k) = le_bytes n x ! k"
    using assms by (simp add: nth_append)
  also have "\<dots> = word_of_int (x div 256 ^ k)"
    using assms by (simp add: le_bytes_def)
  finally show ?thesis
    using assms by (simp add: get_def byte_of_def uint_word_of_int_eq)
qed

lemma readU64_le_bytes:
  assumes "0 \<le> x" "x < 2 ^ 64"
  shows "readU64 (pre @ le_bytes 8 x @ post) (int (length pre)) =
     (if x < 2 ^ 53 then Inr x else Inl (EncodingError (int (length pre)) ''Number exceeds 2^53-1''))"
  using assms by (intro readU64_bytes) (simp_all add: get_append_le_bytes)

lemma readU64_writeU64:
  assumes "0 \<le> v" "v < 2 ^ 64" "0 \<le> off" "off + 8 \<le> int (length dst)"
  shows "readU64 (fst (writeU64 dst v off)) off =
     (if v < 2 ^ 53 then Inr v else Inl (EncodingError off ''Number exceeds 2^53-1''))"
  using assms by (intro readU64_bytes) (simp_all add: get_writeU64)

lemma uint_le_bytes: "k < n \<Longrightarrow> uint (le_bytes n x ! k) = byte_of x k"
  by (simp add: le_bytes_def byte_of_def uint_word_of_int_eq)

lemma buf_slice_eqI:
  assumes "0 \<le> off" "off + int (length bs) \<le> int (length d)"
    and g: "\<And>k. k < length bs \<Longrightarrow> get d (off + int k) = Some (uint (bs ! k))"
  shows "buf_slice d off (off + int (length bs)) = bs"
proof -
  have l: "nat off + length bs \<le> length d" using assms(1,2) by linarith
  have c1: "clamp_index (length d) off = nat off"
    using assms(1,2) by (simp add: clamp_index_def)
  have c2: "clamp_index (length d) (off + int (length bs)) = nat off + length bs"
    using assms(1,2) by (simp add: clamp_index_def nat_add_distrib)
  have "take (length bs) (drop (nat off) d) = bs"
  proof (rule nth_equalityI)
    show "length (take (length bs) (drop (nat off) d)) = length bs" using l by simp
  next
    fix k assume "k < length (take (length bs) (drop (nat off) d))"
    then have k: "k < length bs" by simp
    then have "0 \<le> off + int k" "off + int k < int (length d)" using assms(1) l by linarith+
    with g [OF k] have "uint (d ! nat (off + int k)) = uint (bs ! k)"
      by (simp add: get_def)
    then have "d ! nat (off + int k) = bs ! k" by (rule word_uint_eqI)
    moreover have "nat (off + int k) = nat off + k" using assms(1) by (simp add: nat_add_distrib)
    ultimately show "take (length bs) (drop (nat off) d) ! k = bs ! k"
      using k l by simp
  qed
  then show ?thesis by (simp add: buf_slice_def c1 c2 Let_def)
qed

lemma writeU64_le_bytes:
  assumes "0 \<le> v" "0 \<le> off" "off + 8 \<le> int (length d)"
  shows "buf_slice (fst (writeU64 d v off)) off (off + 8) = le_bytes 8 v"
proof -
  have "buf_slice (fst (writeU64 d v off)) off (off + int (length (le_bytes 8 v))) = le_bytes 8 v"
    using assms by (intro buf_slice_eqI) (simp_all add: get_writeU64 uint_le_bytes)
  then show ?thesis by simp
qed

lemma le_bytes_2: "le_bytes 2 v = [word_of_int v, word_of_int (v div 256)]"
  by (simp add: le_bytes_def numeral_2_eq_2)

lemma le_bytes_4: "le_bytes 4 v =
    [word_of_int v, word_of_int (v div 256), word_of_int (v div 65536), word_of_int (v div 16777216)]"
proof -
  have "[0..<4] = [0, 1, 2, 3]" by (simp add: upt_rec)
  then show ?thesis by (simp add: le_bytes_def)
qed

lemma less_cases:
  "k < (1::nat) \<Longrightarrow> k = 0"
  "k < (3::nat) \<Longrightarrow> k = 0 \<or> k = 1 \<or> k = 2"
  "k < (5::nat) \<Longrightarrow> k = 0 \<or> k = 1 \<or> k = 2 \<or> k = 3 \<or> k = 4"
  by linarith+

lemma writeVarint_1:
  assumes "v < 0xfd" "0 \<le> off" "off + 1 \<le> int (length dst)"
  shows "writeVarint dst v off = (put dst off (js_and v 0xff), off + 1)"
    and "buf_slice (fst (writeVarint dst v off)) off (off + 1) = [word_of_int v]"
proof -
  show w: "writeVarint dst v off = (put dst off (js_and v 0xff), off + 1)"
    using assms(1) by (simp add: writeVarint_def)
  have "buf_slice (put dst off (js_and v 0xff)) off (off + int (length [word_of_int v :: 8 word]))
      = [word_of_int v]"
    using assms(2,3)
    by (intro buf_slice_eqI) (simp_all add: get_put js_and_byte uint_word_of_int_eq)
  then show "buf_slice (fst (writeVarint dst v off)) off (off + 1) = [word_of_int v]"
    by (simp add: w)
qed

lemma writeVarint_3:
  assumes "\<not> v < 0xfd" "v \<le> 0xffff" "0 \<le> off" "off + 3 \<le> int (length dst)"
  shows "snd (writeVarint dst v off) = off + 3"
    and "buf_slice (fst (writeVarint dst v off)) off (off + 3) = 0xfd # le_bytes 2 v"
proof -
  let ?d = "put (put (put dst off 0xfd) (off + 1) (js_and v 0xff)) (off + 2) (js_and (js_sar v 8) 0xff)"
  have w: "writeVarint dst v off = (?d, off + 3)"
    using assms(1,2) by (simp add: writeVarint_def)
  show "snd (writeVarint dst v off) = off + 3" by (simp add: w)
  let ?bs = "[0xfd, word_of_int v, word_of_int (v div 256)] :: buffer"
  have "get ?d (off + int k) = Some (uint (?bs ! k))" if "k < length ?bs" for k
  proof -
    from that have "k < 3" by simp
    then have "k = 0 \<or> k = 1 \<or> k = 2" by (rule less_cases)
    then show ?thesis
      using assms(3,4)
      by (auto simp add: get_put js_and_byte js_sar_byte uint_word_of_int_eq drop_bit_eq_div)
  qed
  then have "buf_slice ?d off (off + int (length ?bs)) = ?bs"
    using assms(3,4) by (intro buf_slice_eqI) simp_all
  then show "buf_slice (fst (writeVarint dst v off)) off (off + 3) = 0xfd # le_bytes 2 v"
    by (simp add: w le_bytes_2)
qed

lemma writeVarint_5:
  assumes "\<not> v \<le> 0xffff" "v \<le> 0xffffffff" "0 \<le> off" "off + 5 \<le> int (length dst)"
  shows "snd (writeVarint dst v off) = off + 5"
    and "buf_slice (fst (writeVarint dst v off)) off (off + 5) = 0xfe # le_bytes 4 v"
proof -
  let ?d = "put (put (put (put (put dst off 0xfe) (off + 1) (js_and v 0xff))
      (off + 2) (js_and (js_sar v 8) 0xff)) (off + 3) (js_and (js_sar v 16) 0xff))
      (off + 4) (js_shr v 24)"
  have w: "writeVarint dst v off = (?d, off + 5)"
    using assms(1,2) by (simp add: writeVarint_def)
  show "snd (writeVarint dst v off) = off + 5" by (simp add: w)
  let ?bs = "[0xfe, word_of_int v, word_of_int (v div 256), word_of_int (v div 65536),
      word_of_int (v div 16777216)] :: buffer"
  have "get ?d (off + int k) = Some (uint (?bs ! k))" if "k < length ?bs" for k
  proof -
    from that have "k < 5" by simp
    then have "k = 0 \<or> k = 1 \<or> k = 2 \<or> k = 3 \<or> k = 4" by (rule less_cases)
    then show ?thesis
      using assms(3,4)
      by (auto simp add: get_put js_and_byte js_sar_byte js_shr_byte uint_word_of_int_eq
          drop_bit_eq_div)
  qed
  then have "buf_slice ?d off (off + int (length ?bs)) = ?bs"
    using assms(3,4) by (intro buf_slice_eqI) simp_all
  then show "buf_slice (fst (writeVarint dst v off)) off (off + 5) = 0xfe # le_bytes 4 v"
    by (simp add: w le_bytes_4)
qed

lemma writeVarint_9:
  assumes "\<not> v \<le> 0xffffffff" "0 \<le> off" "off + 9 \<le> int (length dst)"
  shows "snd (writeVarint dst v off) = off + 9"
    and "buf_slice (fst (writeVarint dst v off)) off (off + 9) = 0xff # le_bytes 8 v"
proof -
  let ?d1 = "put dst off 0xff"
  let ?d = "fst (writeU64 ?d1 v (off + 1))"
  have v: "0 \<le> v" using assms(1) by simp
  have w: "writeVarint dst v off = writeU64 ?d1 v (off + 1)"
    using assms(1) by (simp add: writeVarint_def)
  show "snd (writeVarint dst v off) = off + 9" using v by (simp add: w)
  let ?bs = "0xff # le_bytes 8 v"
  have r: "0 \<le> off + 1" "off + 1 + 8 \<le> int (length ?d1)" using assms(2,3) by simp_all
  have "get ?d (off + int k) = Some (uint (?bs ! k))" if "k < length ?bs" for k
  proof (cases k)
    case 0
    have "get ?d off = get ?d1 off" using v by (simp add: get_writeU64_other)
    then show ?thesis using 0 assms(2,3) by (simp add: get_put)
  next
    case (Suc j)
    with that have j: "j < 8" by simp
    have "get ?d (off + 1 + int j) = Some (byte_of v j)"
      using v r j by (rule get_writeU64)
    moreover have "off + int k = off + 1 + int j" using Suc by simp
    moreover have "uint (?bs ! k) = byte_of v j" using Suc j by (simp add: uint_le_bytes)
    ultimately show ?thesis by (simp only:)
  qed
  moreover have "off + int (length ?bs) \<le> int (length ?d)" using assms(3) v by simp
  ultimately have "buf_slice ?d off (off + int (length ?bs)) = ?bs"
    using assms(2) by (intro buf_slice_eqI)
  then show "buf_slice (fst (writeVarint dst v off)) off (off + 9) = 0xff # le_bytes 8 v"
    by (simp add: w)
qed

lemma writeVarint_shortest:
  assumes "0 \<le> off" "off + sizeVarint v \<le> int (length dst)"
  shows "snd (writeVarint dst v off) = off + sizeVarint v
    \<and> buf_slice (fst (writeVarint dst v off)) off (off + sizeVarint v) = varint_shortest v"
  using assms writeVarint_1 [of v off dst] writeVarint_3 [of v off dst]
    writeVarint_5 [of v off dst] writeVarint_9 [of v off dst]
  by (auto simp add: sizeVarint_def varint_shortest_def)

lemma get_prefix_byte: "get (pre @ b # rest) (int (length pre)) = Some (uint b)"
  by (simp add: get_def)

lemma get_payload:
  assumes "k < n"
  shows "get (pre @ b # le_bytes n x @ post) (int (length pre) + 1 + int k) = Some (byte_of x k)"
proof -
  have "get ((pre @ [b]) @ le_bytes n x @ post) (int (length (pre @ [b])) + int k) = Some (byte_of x k)"
    using assms by (rule get_append_le_bytes)
  moreover have "int (length (pre @ [b])) + int k = int (length pre) + 1 + int k" by simp
  moreover have "(pre @ [b]) @ le_bytes n x @ post = pre @ b # le_bytes n x @ post" by simp
  ultimately show ?thesis by (simp only:)
qed

lemma js_or_shl_bytes:
  assumes "0 \<le> x" "x < 2 ^ 16"
  shows "js_or (byte_of x 0) (js_shl (byte_of x 1) 8) = x"
proof -
  have t: "take_bit 16 x = x" using assms by (simp add: take_bit_int_eq_self)
  have "(word_of_int (take_bit 8 x) OR push_bit 8 (word_of_int (take_bit 8 (drop_bit 8 x))) :: 32 word)
      = word_of_int (take_bit 16 x)"
    by (rule bit_eqI) (auto simp add: bit_simps)
  then have "js_or (byte_of x 0) (js_shl (byte_of x 1) 8) = sint (word_of_int x :: 32 word)"
    by (simp add: js_or_def js_shl_def byte_of_def drop_bit_eq_div t)
  also have "\<dots> = x"
  proof -
    have "take_bit 32 x = x" using assms by (simp add: take_bit_int_eq_self)
    moreover have "signed_take_bit 31 x = x" using assms by (simp add: signed_take_bit_int_eq_self)
    ultimately show ?thesis by (simp add: sint_uint uint_word_of_int_eq)
  qed
  finally show ?thesis .
qed

lemma readVarint_fd:
  assumes "0 \<le> x" "x < 2 ^ 16"
  shows "readVarint (pre @ 0xfd # le_bytes 2 x @ post) (int (length pre)) =
     (if x < 0xfd then Inl (EncodingError (int (length pre)) ''Non-canonical varint'')
      else Inr \<lparr>size = 3, value = x\<rparr>)"
proof -
  let ?d = "pre @ 0xfd # le_bytes 2 x @ post"
  have g0: "get ?d (int (length pre)) = Some 0xfd"
    using get_prefix_byte [of pre "0xfd"] by simp
  have g1: "get ?d (int (length pre) + 1) = Some (byte_of x 0)"
    using get_payload [of 0 2 pre "0xfd" x post] by simp
  have "int (length pre) + 1 + int 1 = int (length pre) + 2" by simp
  then have g2: "get ?d (int (length pre) + 2) = Some (byte_of x 1)"
    using get_payload [of 1 2 pre "0xfd" x post] by (simp only: one_less_numeral_iff semiring_norm)
  show ?thesis
    unfolding readVarint_def g0 g1 g2 using js_or_shl_bytes [OF assms]
    by (simp add: Let_def to_num_def)
qed

lemma readVarint_fe:
  assumes "0 \<le> x" "x < 2 ^ 32"
  shows "readVarint (pre @ 0xfe # le_bytes 4 x @ post) (int (length pre)) =
     (if x \<le> 0xffff then Inl (EncodingError (int (length pre)) ''Non-canonical varint'')
      else Inr \<lparr>size = 5, value = x\<rparr>)"
proof -
  let ?d = "pre @ 0xfe # le_bytes 4 x @ post"
  have g0: "get ?d (int (length pre)) = Some 0xfe"
    using get_prefix_byte [of pre "0xfe"] by simp
  have "readUInt32LE ?d (int (length pre) + 1) = Some (take_bit 32 x)"
    by (intro readUInt32LE_bytes get_payload)
  then have r: "readUInt32LE ?d (int (length pre) + 1) = Some x"
    using assms by (simp add: take_bit_int_eq_self)
  show ?thesis
    unfolding readVarint_def g0 r by simp
qed

lemma readVarint_ff:
  assumes "0 \<le> x" "x < 2 ^ 64"
  shows "readVarint (pre @ 0xff # le_bytes 8 x @ post) (int (length pre)) =
     (if \<not> x < 2 ^ 53 then Inl (EncodingError (int (length pre) + 1) ''Number exceeds 2^53-1'')
      else if x \<le> 0xffffffff then Inl (EncodingError (int (length pre)) ''Non-canonical varint'')
      else Inr \<lparr>size = 9, value = x\<rparr>)"
proof -
  let ?d = "pre @ 0xff # le_bytes 8 x @ post"
  have g0: "get ?d (int (length pre)) = Some 0xff"
    using get_prefix_byte [of pre "0xff"] by simp
  have r: "readU64 ?d (int (length pre) + 1) =
     (if x < 2 ^ 53 then Inr x else Inl (EncodingError (int (length pre) + 1) ''Number exceeds 2^53-1''))"
    using assms by (intro readU64_bytes get_payload)
  show ?thesis
    unfolding readVarint_def g0 r by simp
qed

lemma readVarint_1:
  assumes "0 \<le> x" "x < 0xfd"
  shows "readVarint (pre @ word_of_int x # post) (int (length pre)) = Inr \<lparr>size = 1, value = x\<rparr>"
proof -
  have "uint (word_of_int x :: 8 word) = x"
    using assms by (simp add: uint_word_of_int_eq take_bit_int_eq_self)
  then have g0: "get (pre @ word_of_int x # post) (int (length pre)) = Some x"
    using get_prefix_byte [of pre "word_of_int x" post] by simp
  show ?thesis unfolding readVarint_def g0 using assms by simp
qed

lemma buffer_split:
  assumes "0 \<le> off" "0 \<le> n" "off + n \<le> int (length d)"
  shows "d = take (nat off) d @ buf_slice d off (off + n) @ drop (nat off + nat n) d"
    and "int (length (take (nat off) d)) = off"
proof -
  have c1: "clamp_index (length d) off = nat off"
    using assms by (simp add: clamp_index_def)
  have c2: "clamp_index (length d) (off + n) = nat off + nat n"
    using assms by (simp add: clamp_index_def nat_add_distrib)
  have "buf_slice d off (off + n) = take (nat n) (drop (nat off) d)"
    by (simp add: buf_slice_def c1 c2 Let_def)
  moreover have "drop (nat off + nat n) d = drop (nat n) (drop (nat off) d)"
    by (simp add: add.commute)
  moreover have "take (nat off) d @ take (nat n) (drop (nat off) d) @ drop (nat n) (drop (nat off) d) = d"
    by (simp only: append_take_drop_id)
  ultimately show "d = take (nat off) d @ buf_slice d off (off + n) @ drop (nat off + nat n) d"
    by (simp only:)
  show "int (length (take (nat off) d)) = off" using assms by simp
qed

lemma length_writeVarint: "0 \<le> v \<Longrightarrow> length (fst (writeVarint dst v off)) = length dst"
  by (simp add: writeVarint_def Let_def)

lemma varint_shortest_valid:
  assumes "0 \<le> v" "v < 2 ^ 64"
  shows "varint_shortest v \<in> set (varint_forms v)"
    and "\<forall>f \<in> set (varint_forms v). length (varint_shortest v) \<le> length f"
    and "int (length (varint_shortest v)) = sizeVarint v"
  using assms by (auto simp add: varint_shortest_def varint_forms_def sizeVarint_def)

lemma readVarint_shortest:
  assumes "0 \<le> v" "v < 2 ^ 53"
  shows "readVarint (pre @ varint_shortest v @ post) (int (length pre))
     = Inr \<lparr>size = sizeVarint v, value = v\<rparr>"
proof -
  have b: "v < 2 ^ 64" using assms(2) by simp
  consider "v < 0xfd" | "\<not> v < 0xfd" "v \<le> 0xffff" | "\<not> v \<le> 0xffff" "v \<le> 0xffffffff"
    | "\<not> v \<le> 0xffffffff" by linarith
  then show ?thesis
  proof cases
    case 1
    then show ?thesis using readVarint_1 [OF assms(1), of pre post]
      by (simp add: varint_shortest_def sizeVarint_def)
  next
    case 2
    then have "v < 2 ^ 16" by simp
    from readVarint_fd [OF assms(1) this, of pre post] 2 show ?thesis
      by (simp add: varint_shortest_def sizeVarint_def)
  next
    case 3
    then have "v < 2 ^ 32" by simp
    from readVarint_fe [OF assms(1) this, of pre post] 3 show ?thesis
      by (simp add: varint_shortest_def sizeVarint_def)
  next
    case 4
    from readVarint_ff [OF assms(1) b, of pre post] 4 assms(2) show ?thesis
      by (simp add: varint_shortest_def sizeVarint_def)
  qed
qed

lemma readVarint_writeVarint:
  assumes "0 \<le> v" "v < 2 ^ 53" "0 \<le> off" "off + sizeVarint v \<le> int (length dst)"
  shows "readVarint (fst (writeVarint dst v off)) off = Inr \<lparr>size = sizeVarint v, value = v\<rparr>"
proof -
  let ?d = "fst (writeVarint dst v off)"
  have n: "0 \<le> sizeVarint v" by (simp add: sizeVarint_def)
  have l: "off + sizeVarint v \<le> int (length ?d)"
    using assms(1,4) by (simp add: length_writeVarint)
  have s: "buf_slice ?d off (off + sizeVarint v) = varint_shortest v"
    using writeVarint_shortest [OF assms(3,4)] by simp
  from buffer_split [OF assms(3) n l]
  have d: "?d = take (nat off) ?d @ varint_shortest v @ drop (nat off + nat (sizeVarint v)) ?d"
    and o: "int (length (take (nat off) ?d)) = off"
    unfolding s by simp_all
  have "readVarint (take (nat off) ?d @ varint_shortest v @ drop (nat off + nat (sizeVarint v)) ?d)
      (int (length (take (nat off) ?d))) = Inr \<lparr>size = sizeVarint v, value = v\<rparr>"
    using assms(1,2) by (rule readVarint_shortest)
  then show ?thesis unfolding o using d by simp
qed

lemma readU64N_le_bytes:
  assumes "0 \<le> x" "x < 2 ^ 64"
  shows "readU64N (le_bytes 8 x) 0 = Inr \<lparr>hi = word_of_int (x div 0x100000000), lo = word_of_int x, sign = 0\<rparr>"
    and "uint (bits \<lparr>hi = word_of_int (x div 0x100000000), lo = word_of_int x, sign = 0\<rparr>) = x"
proof -
  have g: "get (le_bytes 8 x) (0 + int k) = Some (byte_of x k)" if "k < 8" for k
    using get_append_le_bytes [OF that, of "[]" x "[]"] by simp
  have "get (le_bytes 8 x) (0 + 4 + int j) = Some (byte_of (x div 0x100000000) j)" if "j < 4" for j
  proof -
    have e: "0 + 4 + int j = 0 + int (j + 4)" by simp
    from that have "j + 4 < 8" by simp
    then show ?thesis unfolding e byte_of_hi by (rule g)
  qed
  then have "readUInt32LE (le_bytes 8 x) (0 + 4) = Some (take_bit 32 (x div 0x100000000))"
    by (rule readUInt32LE_bytes)
  then have h: "readUInt32LE (le_bytes 8 x) 4 = Some (take_bit 32 (x div 0x100000000))" by simp
  have l: "readUInt32LE (le_bytes 8 x) 0 = Some (take_bit 32 x)"
    using g by (intro readUInt32LE_bytes) simp
  have t: "(word_of_int (take_bit 32 y) :: 32 word) = word_of_int y" for y
    by (rule bit_eqI) (auto simp add: bit_simps)
  show "readU64N (le_bytes 8 x) 0
      = Inr \<lparr>hi = word_of_int (x div 0x100000000), lo = word_of_int x, sign = 0\<rparr>"
    by (simp add: readU64N_def N64_readLE_def h l t)
  have "(word_cat (word_of_int (drop_bit 32 x) :: 32 word) (word_of_int x :: 32 word) :: 64 word)
      = word_of_int x"
    by (rule bit_eqI) (auto simp add: bit_simps)
  then have "bits \<lparr>hi = word_of_int (x div 0x100000000), lo = word_of_int x, sign = 0\<rparr> = word_of_int x"
    by (simp add: bits_def drop_bit_eq_div)
  then show "uint (bits \<lparr>hi = word_of_int (x div 0x100000000), lo = word_of_int x, sign = 0\<rparr>) = x"
    using assms by (simp add: uint_word_of_int_eq take_bit_int_eq_self)
qed

subsection \<open>64-bit integers as numbers\<close>

text \<open>
  C5. For every integer \<open>v\<close> from 0 to \<open>2^53 - 1\<close>, \<open>readU64\<close> at the offset where
  \<open>writeU64\<close> put \<open>v\<close> returns \<open>v\<close>; the eight bytes written are the little-endian
  encoding of \<open>v\<close>. On the little-endian encoding of an unsigned value from \<open>2^53\<close> up,
  \<open>readU64\<close> throws with reason \<open>Number exceeds 2^53-1\<close>, while \<open>readU64N\<close> reads the
  value without loss.
\<close>

theorem u64_default_numeric_path:
  "(0 \<le> v \<and> v \<le> 2 ^ 53 - 1 \<and> 0 \<le> off \<and> off + 8 \<le> int (length dst) \<longrightarrow>
      readU64 (fst (writeU64 dst v off)) off = Inr v
      \<and> snd (writeU64 dst v off) = off + 8
      \<and> buf_slice (fst (writeU64 dst v off)) off (off + 8) = le_bytes 8 v)
   \<and> (2 ^ 53 \<le> x \<and> x < 2 ^ 64 \<longrightarrow>
      readU64 (le_bytes 8 x) 0 = Inl (EncodingError 0 ''Number exceeds 2^53-1'')
      \<and> readU64N (le_bytes 8 x) 0
          = Inr \<lparr>hi = word_of_int (x div 0x100000000), lo = word_of_int x, sign = 0\<rparr>
      \<and> uint (bits \<lparr>hi = word_of_int (x div 0x100000000), lo = word_of_int x, sign = 0\<rparr>) = x)"
proof (intro conjI impI)
  assume a: "0 \<le> v \<and> v \<le> 2 ^ 53 - 1 \<and> 0 \<le> off \<and> off + 8 \<le> int (length dst)"
  then have b: "0 \<le> v" "v < 2 ^ 64" "0 \<le> off" "off + 8 \<le> int (length dst)" "v < 2 ^ 53"
    by simp_all
  from readU64_writeU64 [OF b(1-4)] b(5)
  show "readU64 (fst (writeU64 dst v off)) off = Inr v" by simp
  show "snd (writeU64 dst v off) = off + 8" using b(1) by simp
  show "buf_slice (fst (writeU64 dst v off)) off (off + 8) = le_bytes 8 v"
    using b(1,3,4) by (rule writeU64_le_bytes)
next
  assume a: "2 ^ 53 \<le> x \<and> x < 2 ^ 64"
  then have b: "0 \<le> x" "x < 2 ^ 64" "\<not> x < 2 ^ 53" by simp_all
  from readU64_le_bytes [OF b(1,2), of "[]" "[]"] b(3)
  show "readU64 (le_bytes 8 x) 0 = Inl (EncodingError 0 ''Number exceeds 2^53-1'')" by simp
  show "readU64N (le_bytes 8 x) 0
      = Inr \<lparr>hi = word_of_int (x div 0x100000000), lo = word_of_int x, sign = 0\<rparr>"
    using b(1,2) by (rule readU64N_le_bytes)
  show "uint (bits \<lparr>hi = word_of_int (x div 0x100000000), lo = word_of_int x, sign = 0\<rparr>) = x"
    using b(1,2) by (rule readU64N_le_bytes)
qed

theorem u64_default_numeric_path_witness:
  "readU64 (fst (writeU64 [0, 0, 0, 0, 0, 0, 0, 0] 9007199254740991 0)) 0 = Inr 9007199254740991
   \<and> readU64 (le_bytes 8 18446744073709551615) 0 = Inl (EncodingError 0 ''Number exceeds 2^53-1'')
   \<and> readU64N (le_bytes 8 18446744073709551615) 0 = Inr UINT64_MAX
   \<and> uint (bits UINT64_MAX) = 18446744073709551615"
proof -
  have m: "(4294967295 :: 32 word) = - 1" "(18446744073709551615 :: 32 word) = - 1" by simp_all
  from u64_default_numeric_path [of 9007199254740991 0 "[0, 0, 0, 0, 0, 0, 0, 0]" 18446744073709551615]
  show ?thesis by (simp add: UINT64_MAX_def m)
qed

subsection \<open>Varint scheme A\<close>

text \<open>
  C1, as stated: for every non-negative integer \<open>writeVarint\<close> writes the shortest valid
  form. At \<open>2^64\<close> it writes \<open>FF\<close> and eight zero bytes, the long form of 0, which is
  no form of \<open>2^64\<close> and which \<open>readVarint\<close> itself rejects as non-canonical.
\<close>

theorem writeVarint_beyond_64_bits:
  "writeVarint (replicate 9 0) 18446744073709551616 0 = ([0xff, 0, 0, 0, 0, 0, 0, 0, 0], 9)
   \<and> readVarint [0xff, 0, 0, 0, 0, 0, 0, 0, 0] 0 = Inl (EncodingError 0 ''Non-canonical varint'')
   \<and> [0xff, 0, 0, 0, 0, 0, 0, 0, 0] \<notin> set (varint_forms 18446744073709551616)"
proof -
  have a: "writeVarint (replicate 9 0) 18446744073709551616 0 = ([0xff, 0, 0, 0, 0, 0, 0, 0, 0], 9)"
    by code_simp
  have b: "readVarint [0xff, 0, 0, 0, 0, 0, 0, 0, 0] 0 = Inl (EncodingError 0 ''Non-canonical varint'')"
    by code_simp
  have c: "[0xff, 0, 0, 0, 0, 0, 0, 0, 0] \<notin> set (varint_forms 18446744073709551616)"
    by (simp add: varint_forms_def)
  from a b c show ?thesis by (simp only: simp_thms)
qed

text \<open>
  C1, amended. For every integer \<open>v\<close> with \<open>0 \<le> v < 2^64\<close>, \<open>writeVarint\<close> advances by
  \<open>sizeVarint v\<close> and writes the shortest valid form of \<open>v\<close> (one byte below \<open>0xFD\<close>;
  252 is \<open>FC\<close>, 253 is \<open>FD FD 00\<close>), which \<open>readVarint\<close> reads back when \<open>v < 2^53\<close>.
  \<open>readVarint\<close> throws \<open>Non-canonical varint\<close> on every long form whose value fits a
  shorter one: prefix \<open>0xFD\<close> with a value below \<open>0xFD\<close>, prefix \<open>0xFE\<close> with a value up
  to \<open>0xFFFF\<close>, prefix \<open>0xFF\<close> with a value up to \<open>0xFFFFFFFF\<close>.
\<close>

theorem varint_canonical:
  "(0 \<le> v \<and> v < 2 ^ 64 \<and> 0 \<le> off \<and> off + sizeVarint v \<le> int (length dst) \<longrightarrow>
      snd (writeVarint dst v off) = off + sizeVarint v
      \<and> buf_slice (fst (writeVarint dst v off)) off (off + sizeVarint v) = varint_shortest v
      \<and> varint_shortest v \<in> set (varint_forms v)
      \<and> (\<forall>f \<in> set (varint_forms v). length (varint_shortest v) \<le> length f)
      \<and> (v < 2 ^ 53 \<longrightarrow>
           readVarint (fst (writeVarint dst v off)) off = Inr \<lparr>size = sizeVarint v, value = v\<rparr>))
   \<and> (v < 0xfd \<longrightarrow> sizeVarint v = 1)
   \<and> writeVarint [0] 252 0 = ([0xfc], 1)
   \<and> writeVarint [0, 0, 0] 253 0 = ([0xfd, 0xfd, 0x00], 3)
   \<and> (0 \<le> x \<and> x < 0xfd \<longrightarrow>
        readVarint (pre @ 0xfd # le_bytes 2 x @ post) (int (length pre))
          = Inl (EncodingError (int (length pre)) ''Non-canonical varint''))
   \<and> (0 \<le> x \<and> x \<le> 0xffff \<longrightarrow>
        readVarint (pre @ 0xfe # le_bytes 4 x @ post) (int (length pre))
          = Inl (EncodingError (int (length pre)) ''Non-canonical varint''))
   \<and> (0 \<le> x \<and> x \<le> 0xffffffff \<longrightarrow>
        readVarint (pre @ 0xff # le_bytes 8 x @ post) (int (length pre))
          = Inl (EncodingError (int (length pre)) ''Non-canonical varint''))"
proof -
  have w: "snd (writeVarint dst v off) = off + sizeVarint v
      \<and> buf_slice (fst (writeVarint dst v off)) off (off + sizeVarint v) = varint_shortest v
      \<and> varint_shortest v \<in> set (varint_forms v)
      \<and> (\<forall>f \<in> set (varint_forms v). length (varint_shortest v) \<le> length f)
      \<and> (v < 2 ^ 53 \<longrightarrow>
           readVarint (fst (writeVarint dst v off)) off = Inr \<lparr>size = sizeVarint v, value = v\<rparr>)"
    if a: "0 \<le> v \<and> v < 2 ^ 64 \<and> 0 \<le> off \<and> off + sizeVarint v \<le> int (length dst)"
  proof -
    from a have b: "0 \<le> v" "v < 2 ^ 64" "0 \<le> off" "off + sizeVarint v \<le> int (length dst)"
      by simp_all
    show ?thesis
      using writeVarint_shortest [OF b(3,4)] varint_shortest_valid(1,2) [OF b(1,2)]
        readVarint_writeVarint [OF b(1) _ b(3,4)]
      by blast
  qed
  have s: "v < 0xfd \<longrightarrow> sizeVarint v = 1" by (simp add: sizeVarint_def)
  have e1: "writeVarint [0] 252 0 = ([0xfc], 1)"
    by (simp add: writeVarint_def put_def js_and_def)
  have e2: "writeVarint [0, 0, 0] 253 0 = ([0xfd, 0xfd, 0x00], 3)"
    by (simp add: writeVarint_def put_def js_and_def js_sar_def Let_def)
  have d1: "readVarint (pre @ 0xfd # le_bytes 2 x @ post) (int (length pre))
          = Inl (EncodingError (int (length pre)) ''Non-canonical varint'')"
    if "0 \<le> x \<and> x < 0xfd"
    using that readVarint_fd [of x pre post] by simp
  have d2: "readVarint (pre @ 0xfe # le_bytes 4 x @ post) (int (length pre))
          = Inl (EncodingError (int (length pre)) ''Non-canonical varint'')"
    if "0 \<le> x \<and> x \<le> 0xffff"
    using that readVarint_fe [of x pre post] by simp
  have d3: "readVarint (pre @ 0xff # le_bytes 8 x @ post) (int (length pre))
          = Inl (EncodingError (int (length pre)) ''Non-canonical varint'')"
    if "0 \<le> x \<and> x \<le> 0xffffffff"
    using that readVarint_ff [of x pre post] by simp
  from w s e1 e2 d1 d2 d3 show ?thesis by blast
qed

theorem varint_canonical_witness:
  "buf_slice (fst (writeVarint [7, 0, 0, 0] 253 1)) 1 4 = [0xfd, 0xfd, 0x00]
   \<and> readVarint (fst (writeVarint [7, 0, 0, 0] 253 1)) 1 = Inr \<lparr>size = 3, value = 253\<rparr>
   \<and> buf_slice (fst (writeVarint [7] 252 0)) 0 1 = [0xfc]
   \<and> sizeVarint 252 = 1
   \<and> readVarint [0xfd, 0x10, 0x00] 0 = Inl (EncodingError 0 ''Non-canonical varint'')
   \<and> readVarint [0xfe, 0x10, 0x00, 0x00, 0x00] 0 = Inl (EncodingError 0 ''Non-canonical varint'')
   \<and> readVarint [0xff, 0x10, 0x00, 0x00, 0x00, 0x00, 0x00, 0x00, 0x00] 0
        = Inl (EncodingError 0 ''Non-canonical varint'')"
  using varint_canonical [of 253 1 "[7, 0, 0, 0]" 16 "[]" "[]"]
        varint_canonical [of 252 0 "[7]" 16 "[]" "[]"]
  by (simp add: sizeVarint_def varint_shortest_def le_bytes_2 le_bytes_4 le_bytes_def upt_rec)

end
